theory Spec2Isabelle
  imports Complex_Main "HOL-Library.Sublist" "HOL-Library.AList" "HOL-Library.Multiset"
begin

section \<open>Strings\<close>

text \<open>
  Python text is modelled as \<open>string\<close>: a list of characters, each character a code
  point below 256. \<open>str.isspace\<close> holds on that range exactly for the code points
  U+0009 to U+000D, U+001C to U+001F, U+0020, U+0085 and U+00A0.
\<close>

definition isspace :: "char \<Rightarrow> bool" where
  "isspace c = (of_char c \<in> {9, 10, 11, 12, 13, 28, 29, 30, 31, 32, 133, 160 :: nat})"

text \<open>\<open>s.strip()\<close>: leading and trailing whitespace removed.\<close>

definition strip :: "string \<Rightarrow> string" where
  "strip s = rev (dropWhile isspace (rev (dropWhile isspace s)))"

text \<open>\<open>a in c\<close> on two strings: \<open>a\<close> occurs in \<open>c\<close> as a contiguous run.\<close>

definition str_in :: "string \<Rightarrow> string \<Rightarrow> bool" where
  "str_in a c = sublist a c"

text \<open>
  \<open>c.index(a)\<close>: the lowest position at which \<open>a\<close> starts in \<open>c\<close>; \<open>None\<close>
  stands for the \<open>ValueError\<close> Python raises when there is none.
\<close>

fun str_index :: "string \<Rightarrow> string \<Rightarrow> nat option" where
  "str_index [] a = (if a = [] then Some 0 else None)"
| "str_index (x # xs) a =
     (if prefix a (x # xs) then Some 0 else map_option Suc (str_index xs a))"

section \<open>Judgements and the output aggregator\<close>

text \<open>One row of \<open>kept_pairs\<close>, as \<open>save_qa_pair\<close> builds it.\<close>

record kept_pair =
  Context :: string
  Question :: string
  Answer :: string
  Original_Question_Naturalness :: bool
  Original_Answer_Naturalness :: bool
  Original_Answer_Adequacy :: bool
  Original_Answer_Correctness :: bool
  User_Query :: string
  User_Answer :: string

text \<open>An answer entry of the SQuAD output: \<open>{'text': a, 'answer_start': i}\<close>.\<close>

record answer_entry =
  ans_text :: string
  answer_start :: nat

text \<open>
  Python dictionaries keep insertion order, and the output lists follow it, so the
  dictionary \<open>context_to_question_answers\<close> and its inner dictionaries are association
  lists with unique keys: \<open>map_of\<close> reads a key, \<open>AList.update\<close> overwrites a key in
  place or appends a new one at the end.
\<close>

type_synonym question_answers = "(string \<times> answer_entry list) list"

text \<open>
  The accumulators of the loop of \<open>kept_pairs_to_output\<close>. \<open>logged\<close> collects the
  triples \<open>[context, q, a]\<close> the \<open>except ValueError\<close> branch writes to the log.
\<close>

record agg_state =
  unnatural :: "string list"
  incorrect :: "(string \<times> string) list"
  context_to_question_answers :: "(string \<times> question_answers) list"
  logged :: "(string \<times> string \<times> string) list"

text \<open>The test of line 387: the original pair is kept beside the reviewer's.\<close>

definition original_pair_kept :: "kept_pair \<Rightarrow> bool" where
  "original_pair_kept kp =
     (Original_Question_Naturalness kp \<and> Original_Answer_Naturalness kp \<and>
      (Original_Answer_Adequacy kp \<or> Original_Answer_Correctness kp))"

definition pairs_to_add :: "kept_pair \<Rightarrow> (string \<times> string) list" where
  "pairs_to_add kp =
     [(User_Query kp, User_Answer kp)] @
     (if original_pair_kept kp then [(Question kp, Answer kp)] else [])"

text \<open>What one judgement appends to \<open>unnatural\<close> (the \<open>else\<close> branch, in its order).\<close>

definition unnatural_of :: "kept_pair \<Rightarrow> string list" where
  "unnatural_of kp =
     (if original_pair_kept kp then []
      else (if \<not> Original_Question_Naturalness kp then [Question kp] else []) @
           (if \<not> Original_Answer_Naturalness kp then [Answer kp] else []))"

text \<open>What one judgement appends to \<open>incorrect\<close>.\<close>

definition incorrect_of :: "kept_pair \<Rightarrow> (string \<times> string) list" where
  "incorrect_of kp =
     (if original_pair_kept kp then []
      else if \<not> Original_Answer_Correctness kp \<and> \<not> Original_Answer_Adequacy kp
           then [(Question kp, Answer kp)] else [])"

text \<open>
  The body of the inner loop (lines 401 to 410) on the inner dictionary of the context:
  the key \<open>q\<close> is created with an empty list when absent, then the answer entry is
  appended when the offset lookup succeeds, and the triple is logged when it raises.
\<close>

definition add_pair ::
  "string \<Rightarrow> string \<times> string \<Rightarrow>
   question_answers \<times> (string \<times> string \<times> string) list \<Rightarrow>
   question_answers \<times> (string \<times> string \<times> string) list" where
  "add_pair c qa acc =
     (let q = fst qa; a = snd qa; q_a = fst acc; lg = snd acc;
          old = (case map_of q_a q of None \<Rightarrow> [] | Some l \<Rightarrow> l)
      in case str_index c a of
           Some i \<Rightarrow> (AList.update q (old @ [\<lparr>ans_text = a, answer_start = i\<rparr>]) q_a, lg)
         | None \<Rightarrow> (AList.update q old q_a, lg @ [(c, q, a)]))"

text \<open>
  The body of the outer loop (lines 374 to 410). The inner dictionary of the context is
  created empty when absent (line 382) and mutated in place by the inner loop.
\<close>

definition process_kept_pair :: "kept_pair \<Rightarrow> agg_state \<Rightarrow> agg_state" where
  "process_kept_pair kp s =
     (let c = Context kp;
          d = context_to_question_answers s;
          q_a = (case map_of d c of None \<Rightarrow> [] | Some m \<Rightarrow> m);
          r = fold (add_pair c) (pairs_to_add kp) (q_a, logged s)
      in \<lparr>unnatural = unnatural s @ unnatural_of kp,
          incorrect = incorrect s @ incorrect_of kp,
          context_to_question_answers = AList.update c (fst r) d,
          logged = snd r\<rparr>)"

definition agg_init :: agg_state where
  "agg_init = \<lparr>unnatural = [], incorrect = [], context_to_question_answers = [], logged = []\<rparr>"

definition kept_pairs_loop :: "kept_pair list \<Rightarrow> agg_state" where
  "kept_pairs_loop kept_pairs = fold process_kept_pair kept_pairs agg_init"

text \<open>The SQuAD document. Every question entry gets an identifier.\<close>

record qa_entry =
  question :: string
  answers :: "answer_entry list"
  is_impossible :: bool
  qa_id :: string

record squad_paragraph =
  qas :: "qa_entry list"
  par_context :: string

record squad_doc =
  title :: string
  paragraphs :: "squad_paragraph list"

record squad =
  squad_data :: "squad_doc list"
  version :: string

text \<open>
  Lines 422 to 434. \<open>uuid.uuid4()\<close> is an input of the model: \<open>ids k\<close> is the
  identifier the \<open>k\<close>-th call returns.
\<close>

fun paragraphs_of ::
  "(nat \<Rightarrow> string) \<Rightarrow> nat \<Rightarrow> (string \<times> question_answers) list \<Rightarrow> squad_paragraph list" where
  "paragraphs_of ids n [] = []"
| "paragraphs_of ids n ((c, q_a) # rest) =
     \<lparr>qas = map (\<lambda>(k, q, ans).
               \<lparr>question = q, answers = ans, is_impossible = False, qa_id = ids k\<rparr>)
             (zip [n..<n + length q_a] q_a),
      par_context = c\<rparr> # paragraphs_of ids (n + length q_a) rest"

definition kept_pairs_to_output ::
  "(nat \<Rightarrow> string) \<Rightarrow> kept_pair list \<Rightarrow> squad \<times> string list \<times> (string \<times> string) list" where
  "kept_pairs_to_output ids kept_pairs =
     (let s = kept_pairs_loop kept_pairs
      in (\<lparr>squad_data = [\<lparr>title = ''Streamlit'',
                           paragraphs = paragraphs_of ids 0 (context_to_question_answers s)\<rparr>],
           version = ''v2.0''\<rparr>,
          unnatural s, incorrect s))"

text \<open>The triples \<open>kept_pairs_to_output\<close> logs on its way.\<close>

definition kept_pairs_logged :: "kept_pair list \<Rightarrow> (string \<times> string \<times> string) list" where
  "kept_pairs_logged kept_pairs = logged (kept_pairs_loop kept_pairs)"

text \<open>
  The verified dataset read as a flat list: one triple (context, question, answer entries)
  for every question entry of every paragraph, in the order of the document.
\<close>

definition verified_entries :: "squad \<Rightarrow> (string \<times> string \<times> answer_entry list) list" where
  "verified_entries sq =
     concat (map (\<lambda>p. map (\<lambda>e. (par_context p, question e, answers e)) (qas p))
                 (concat (map paragraphs (squad_data sq))))"

section \<open>Sample inputs\<close>

text \<open>An identifier supply that returns the same 32 hexadecimal digits at every call.\<close>

definition zero_ids :: "nat \<Rightarrow> string" where
  "zero_ids k = replicate 32 (CHR ''0'')"

text \<open>A judgement that leaves a natural, adequate original pair as it is.\<close>

definition kp_same :: kept_pair where
  "kp_same = \<lparr>Context = ''the cat sat'', Question = ''who sat'', Answer = ''cat'',
     Original_Question_Naturalness = True, Original_Answer_Naturalness = True,
     Original_Answer_Adequacy = True, Original_Answer_Correctness = False,
     User_Query = ''who sat'', User_Answer = ''cat''\<rparr>"

text \<open>A judgement whose reviewer answer ends in blanks the context does not have.\<close>

definition kp_missing :: kept_pair where
  "kp_missing = \<lparr>Context = ''the cat sat'', Question = ''who sat'', Answer = ''dog'',
     Original_Question_Naturalness = False, Original_Answer_Naturalness = False,
     Original_Answer_Adequacy = False, Original_Answer_Correctness = False,
     User_Query = ''who sat?'', User_Answer = ''cat  ''\<rparr>"

text \<open>
  A judgement that keeps a natural, adequate original answer the context does not have,
  beside a corrected answer.
\<close>

definition kp_dog :: kept_pair where
  "kp_dog = \<lparr>Context = ''the cat sat'', Question = ''who sat'', Answer = ''dog'',
     Original_Question_Naturalness = True, Original_Answer_Naturalness = True,
     Original_Answer_Adequacy = True, Original_Answer_Correctness = False,
     User_Query = ''who sat'', User_Answer = ''cat''\<rparr>"

section \<open>Reading the dictionary of the aggregator\<close>

text \<open>
  These definitions state what the loop computes; they are not in the source. The answer
  entry one candidate pair contributes to the question \<open>q\<close> of the context \<open>c\<close>: its
  text and offset when the pair is for \<open>q\<close> and the offset lookup succeeds.
\<close>

definition entry_of :: "string \<Rightarrow> string \<Rightarrow> string \<times> string \<Rightarrow> answer_entry list" where
  "entry_of c q qa =
     (if fst qa = q
      then (case str_index c (snd qa) of
              None \<Rightarrow> []
            | Some i \<Rightarrow> [\<lparr>ans_text = snd qa, answer_start = i\<rparr>])
      else [])"

definition entries_of ::
  "string \<Rightarrow> string \<Rightarrow> (string \<times> string) list \<Rightarrow> answer_entry list" where
  "entries_of c q ps = concat (map (entry_of c q) ps)"

text \<open>\<open>d[c][q]\<close>, with \<open>None\<close> when either key is missing.\<close>

definition answers_at ::
  "(string \<times> question_answers) list \<Rightarrow> string \<Rightarrow> string \<Rightarrow> answer_entry list option" where
  "answers_at d c q = (case map_of d c of None \<Rightarrow> None | Some m \<Rightarrow> map_of m q)"

definition list_or_empty :: "'a list option \<Rightarrow> 'a list" where
  "list_or_empty x = (case x of None \<Rightarrow> [] | Some l \<Rightarrow> l)"

text \<open>All candidate pairs of the judgements of one context, in the order of the loop.\<close>

definition all_pairs :: "string \<Rightarrow> kept_pair list \<Rightarrow> (string \<times> string) list" where
  "all_pairs c kps = concat (map pairs_to_add (filter (\<lambda>kp. Context kp = c) kps))"

text \<open>The triples one judgement sends to the log: its pairs whose offset lookup raises.\<close>

definition failures_of :: "kept_pair \<Rightarrow> (string \<times> string \<times> string) list" where
  "failures_of kp =
     map (\<lambda>qa. (Context kp, fst qa, snd qa))
       (filter (\<lambda>qa. str_index (Context kp) (snd qa) = None) (pairs_to_add kp))"

text \<open>
  The output stated from the judgements, in the words of the aggregation rule (not in the
  source). \<open>found_at c a\<close> is the answer entry of the answer \<open>a\<close> under the context
  \<open>c\<close>: its text and offset, or nothing when \<open>a\<close> does not occur in \<open>c\<close>.
  \<open>contribution c q kp\<close> lists the entries the judgement \<open>kp\<close> gives to the question
  \<open>q\<close> of the context \<open>c\<close>: the reviewer's pair first, then the original pair when the
  original question is natural, the original answer is natural and the original answer
  is adequate or correct.
\<close>

definition found_at :: "string \<Rightarrow> string \<Rightarrow> answer_entry list" where
  "found_at c a =
     (case str_index c a of None \<Rightarrow> [] | Some i \<Rightarrow> [\<lparr>ans_text = a, answer_start = i\<rparr>])"

definition contribution :: "string \<Rightarrow> string \<Rightarrow> kept_pair \<Rightarrow> answer_entry list" where
  "contribution c q kp =
     (if Context kp = c
      then (if User_Query kp = q then found_at c (User_Answer kp) else []) @
           (if Original_Question_Naturalness kp \<and> Original_Answer_Naturalness kp \<and>
               (Original_Answer_Adequacy kp \<or> Original_Answer_Correctness kp) \<and>
               Question kp = q
            then found_at c (Answer kp) else [])
      else [])"

text \<open>The texts and the pairs one judgement gives to the two side lists.\<close>

definition unnatural_texts :: "kept_pair \<Rightarrow> string list" where
  "unnatural_texts kp =
     (if Original_Question_Naturalness kp \<and> Original_Answer_Naturalness kp \<and>
         (Original_Answer_Adequacy kp \<or> Original_Answer_Correctness kp)
      then []
      else (if Original_Question_Naturalness kp then [] else [Question kp]) @
           (if Original_Answer_Naturalness kp then [] else [Answer kp]))"

definition incorrect_pairs :: "kept_pair \<Rightarrow> (string \<times> string) list" where
  "incorrect_pairs kp =
     (if Original_Question_Naturalness kp \<and> Original_Answer_Naturalness kp \<and>
         (Original_Answer_Adequacy kp \<or> Original_Answer_Correctness kp)
      then []
      else if Original_Answer_Adequacy kp \<or> Original_Answer_Correctness kp then []
           else [(Question kp, Answer kp)])"

text \<open>The keys of the dictionary, and of each inner dictionary, are unique.\<close>

definition wf_dict :: "(string \<times> question_answers) list \<Rightarrow> bool" where
  "wf_dict d = (distinct (map fst d) \<and> (\<forall>p \<in> set d. distinct (map fst (snd p))))"

section \<open>The shuffler\<close>

text \<open>
  \<open>shuffle_qa_data\<close> returns at its first statement, \<open>return qa_data\<close> (marked
  \<open>TODO Delete this line\<close>): the seeded shuffle below that line never runs.
\<close>

type_synonym item = "string \<times> string \<times> string"

definition shuffle_qa_data :: "string \<Rightarrow> item list \<Rightarrow> item list" where
  "shuffle_qa_data username qa_data = qa_data"

text \<open>
  What the docstring of \<open>shuffle_qa_data\<close> promises of its result: all items of one
  context are contiguous. An item may share its context only with its neighbour or with
  no later item: once the context changes it does not come back.
\<close>

fun contexts_contiguous :: "item list \<Rightarrow> bool" where
  "contexts_contiguous [] = True"
| "contexts_contiguous [x] = True"
| "contexts_contiguous (x # y # xs) =
     ((fst x = fst y \<or> fst x \<notin> fst ` set xs) \<and> contexts_contiguous (y # xs))"

text \<open>
  Lines 489 to 491 of \<open>load_user_profile_and_dataset\<close>: the data file is a JSON object
  from each context to an object from its questions to their answers, and the queue lists
  its triples context by context. The file is an association list with unique keys.
\<close>

definition flatten_raw_data :: "(string \<times> (string \<times> string) list) list \<Rightarrow> item list" where
  "flatten_raw_data raw_data =
     concat (map (\<lambda>(context, qa_data).
                    map (\<lambda>(question', answer). (context, question', answer)) qa_data)
                 raw_data)"

section \<open>The review session\<close>

text \<open>
  The value of one note of \<open>add_notes\<close>: the answer with its note, and the note on the
  question; an empty note is stored as \<open>None\<close>.
\<close>

record note_rec =
  note_answer :: "string \<times> string option"
  note_question :: "string option"

text \<open>The dictionary \<open>times\<close>: seconds by calibration step and by queue position.\<close>

record times_rec =
  examples :: "nat \<rightharpoonup> real"
  questions :: "nat \<rightharpoonup> real"

text \<open>
  The files of one reviewer. \<open>init_user\<close> creates \<open>profile.json\<close>; each of the other
  files is absent (\<open>None\<close>) until \<open>export_data\<close> writes it.
\<close>

record disk =
  profile_json :: "kept_pair list"
  profile_squad :: "squad option"
  unnatural_texts_json :: "string list option"
  unsuitable_questions_json :: "(string \<rightharpoonup> string list) option"
  incorrect_json :: "(string \<times> string) list option"
  times_json :: "times_rec option"
  notes_json :: "(string \<rightharpoonup> (string \<rightharpoonup> note_rec)) option"

text \<open>
  The entries of \<open>st.session_state\<close> the engine reads and writes, with the reviewer's
  files (\<open>session_notes\<close> is the entry \<open>notes\<close>). \<open>unsuitable_questions\<close> is a \<open>defaultdict(list)\<close>: a map from a context to the
  questions marked unsuitable under it.
\<close>

record session =
  user :: string
  index_input :: nat
  data :: "item list"
  completed_questions :: "string set"
  unsuitable_questions :: "string \<rightharpoonup> string list"
  kept_pairs :: "kept_pair list"
  session_notes :: "string \<rightharpoonup> (string \<rightharpoonup> note_rec)"
  times :: times_rec
  errors_question :: "string list"
  errors_answer :: "string list"
  files :: disk

text \<open>The two options of the suitability radio button.\<close>

datatype suitability = question_unsuitable_option | question_suitable_option

text \<open>
  The widgets of the form of the current item, as \<open>submit_qa\<close> reads them from the
  session state. The answer's explanation is absent when its widget was never drawn.
\<close>

record form =
  question_suitability :: suitability
  question_naturalness :: bool
  user_question :: string
  question_explanation :: string
  answer_naturalness :: bool
  answer_adequacy :: bool
  answer_precision :: bool
  user_answer :: string
  answer_explanation :: "string option"

text \<open>\<open>init_user\<close> on a new reviewer: an empty profile and no other file.\<close>

definition init_user :: disk where
  "init_user = \<lparr>profile_json = [], profile_squad = None, unnatural_texts_json = None,
     unsuitable_questions_json = None, incorrect_json = None, times_json = None,
     notes_json = None\<rparr>"

text \<open>
  \<open>load_user_profile_and_dataset\<close>. \<open>raw_data\<close> is the generated data file, read in
  its order as triples (\<open>flatten_raw_data\<close> of the file); an absent side file leaves
  the default of the session.
\<close>

definition load_user_profile_and_dataset :: "string \<Rightarrow> item list \<Rightarrow> disk \<Rightarrow> session" where
  "load_user_profile_and_dataset username raw_data fs =
     \<lparr>user = username,
      index_input = 0,
      data = shuffle_qa_data username raw_data,
      completed_questions = set (map Question (profile_json fs)),
      unsuitable_questions =
        (case unsuitable_questions_json fs of None \<Rightarrow> Map.empty | Some m \<Rightarrow> m),
      kept_pairs = profile_json fs,
      session_notes = (case notes_json fs of None \<Rightarrow> Map.empty | Some m \<Rightarrow> m),
      times = (case times_json fs of
                 None \<Rightarrow> \<lparr>examples = Map.empty, questions = Map.empty\<rparr>
               | Some t \<Rightarrow> t),
      errors_question = [],
      errors_answer = [],
      files = fs\<rparr>"

subsection \<open>The queue cursor\<close>

text \<open>Lines 675 and 676: the tests that make the cursor skip an item.\<close>

definition qa_pair_annotated :: "session \<Rightarrow> item \<Rightarrow> bool" where
  "qa_pair_annotated s it = (fst (snd it) \<in> completed_questions s)"

definition qa_pair_unsuitable :: "session \<Rightarrow> item \<Rightarrow> bool" where
  "qa_pair_unsuitable s it =
     (case unsuitable_questions s (fst it) of
        None \<Rightarrow> False
      | Some qs \<Rightarrow> fst (snd it) \<in> set qs)"

text \<open>The \<open>while\<close> loop of \<open>run_qa_tool\<close> (lines 672 to 684).\<close>

function cursor_loop :: "session \<Rightarrow> session" where
  "cursor_loop s =
     (if index_input s < length (data s)
      then (if qa_pair_annotated s (data s ! index_input s) \<or>
               qa_pair_unsuitable s (data s ! index_input s)
            then cursor_loop (s\<lparr>index_input := index_input s + 1\<rparr>)
            else s)
      else s)"
  by pat_completeness auto
termination
  by (relation "measure (\<lambda>s. length (data s) - index_input s)") auto

declare cursor_loop.simps [simp del]

text \<open>Line 695: the queue is exhausted and the completion message is shown.\<close>

definition end_of_queue :: "session \<Rightarrow> bool" where
  "end_of_queue s = (index_input s = length (data s))"

subsection \<open>Saving and exporting\<close>

text \<open>\<open>export_data\<close> writes the seven files from the session.\<close>

definition export_data :: "(nat \<Rightarrow> string) \<Rightarrow> session \<Rightarrow> session" where
  "export_data ids s =
     (case kept_pairs_to_output ids (kept_pairs s) of
        (squad_pairs, unnatural_questions, incorrect_qa) \<Rightarrow>
          s\<lparr>files := \<lparr>profile_json = kept_pairs s,
                       profile_squad = Some squad_pairs,
                       unnatural_texts_json = Some unnatural_questions,
                       unsuitable_questions_json = Some (unsuitable_questions s),
                       incorrect_json = Some incorrect_qa,
                       times_json = Some (times s),
                       notes_json = Some (session_notes s)\<rparr>\<rparr>)"

definition add_notes :: "form \<Rightarrow> string \<Rightarrow> string \<Rightarrow> string \<Rightarrow> session \<Rightarrow> session" where
  "add_notes f context question' answer s =
     (let question_note = strip (question_explanation f);
          answer_note = (case answer_explanation f of None \<Rightarrow> [] | Some e \<Rightarrow> strip e)
      in if question_note \<noteq> [] \<or> answer_note \<noteq> []
         then s\<lparr>session_notes := (session_notes s)(context \<mapsto>
                  (case session_notes s context of None \<Rightarrow> Map.empty | Some m \<Rightarrow> m)(question' \<mapsto>
                     \<lparr>note_answer = (answer, if answer_note \<noteq> [] then Some answer_note else None),
                      note_question = (if question_note \<noteq> [] then Some question_note else None)\<rparr>))\<rparr>
         else s)"

text \<open>\<open>save_qa_pair\<close>, with the current item it closes over as its first argument.\<close>

definition save_qa_pair ::
  "item \<Rightarrow> bool \<Rightarrow> bool \<Rightarrow> bool \<Rightarrow> bool \<Rightarrow> string \<Rightarrow> string \<Rightarrow> session \<Rightarrow> session" where
  "save_qa_pair current original_question_naturalness original_answer_naturalness
       original_answer_adequacy original_answer_correctness user_question' user_answer' s =
     s\<lparr>kept_pairs := kept_pairs s @
          [\<lparr>Context = fst current,
            Question = fst (snd current),
            Answer = snd (snd current),
            Original_Question_Naturalness = original_question_naturalness,
            Original_Answer_Naturalness = original_answer_naturalness,
            Original_Answer_Adequacy = original_answer_adequacy,
            Original_Answer_Correctness = original_answer_correctness,
            User_Query = user_question',
            User_Answer = user_answer'\<rparr>],
       completed_questions := insert (fst (snd current)) (completed_questions s)\<rparr>"

subsection \<open>The validator\<close>

definition msg_question_blank :: string where
  "msg_question_blank = ''The question cannot be blank.''"

definition msg_answer_blank :: string where
  "msg_answer_blank = ''The answer cannot be blank,''"

definition msg_question_natural_modified :: string where
  "msg_question_natural_modified =
     ''The question is marked as reading naturally, but has also been modified. Only ones that do not read naturally should be modified.''"

definition msg_question_unnatural_unmodified :: string where
  "msg_question_unnatural_unmodified =
     ''The question is marked as not reading naturally, but it has not been modified. Please modify it to read naturally.''"

definition msg_answer_not_in_document :: "string \<Rightarrow> string" where
  "msg_answer_not_in_document submitted_answer =
     ''The answer '' @ [CHR 0x22] @ submitted_answer @ [CHR 0x22] @
     '' does not appear in the document, please provide an answer that does (case-sensitive).'' @
     [CHR 0x0A] @
     ''            If you cannot do so whilst maintaining naturalness and correctness, please mark the question as unsuitable/impossible.''"

definition msg_precise_not_adequate :: string where
  "msg_precise_not_adequate =
     ''Any precise-and-correct answer should also be adequate, but it was not marked as such.''"

definition msg_answer_perfect_modified :: string where
  "msg_answer_perfect_modified =
     ''The answer is marked as precise, correct and reading naturally, but has been modified. Only ones with problems should be modified.''"

definition msg_answer_unnatural_unmodified :: string where
  "msg_answer_unnatural_unmodified =
     ''The answer is marked as not reading naturally, but has not been modified. Please modify it to read naturally.''"

definition msg_answer_incorrect_unmodified :: string where
  "msg_answer_incorrect_unmodified =
     ''The answer is marked as incorrect, but has not been modified. Please modify it to be correct.''"

text \<open>
  The messages \<open>submit_qa\<close> appends to \<open>errors['question']\<close> for a suitable question
  (lines 948 to 959), in the order of the appends.
\<close>

definition question_errors :: "form \<Rightarrow> item \<Rightarrow> string list" where
  "question_errors f current =
     (let submitted_question = strip (user_question f);
          question_modified = (submitted_question \<noteq> strip (fst (snd current)));
          question_natural = question_naturalness f
      in (if submitted_question = [] then [msg_question_blank] else []) @
         (if question_modified \<and> question_natural then [msg_question_natural_modified]
          else if \<not> question_modified \<and> \<not> question_natural
               then [msg_question_unnatural_unmodified]
               else []))"

text \<open>The messages appended to \<open>errors['answer']\<close> (lines 951 to 980).\<close>

definition answer_errors :: "form \<Rightarrow> item \<Rightarrow> string list" where
  "answer_errors f current =
     (let submitted_answer = strip (user_answer f);
          answer_modified = (submitted_answer \<noteq> strip (snd (snd current)));
          answer_natural = answer_naturalness f;
          answer_adequate = answer_adequacy f;
          answer_correct = answer_precision f
      in (if submitted_answer = [] then [msg_answer_blank] else []) @
         (if \<not> str_in submitted_answer (fst current)
          then [msg_answer_not_in_document submitted_answer] else []) @
         (if answer_correct \<and> \<not> answer_adequate then [msg_precise_not_adequate] else []) @
         (if answer_modified
          then (if answer_correct \<and> answer_natural then [msg_answer_perfect_modified] else [])
          else (if \<not> answer_natural then [msg_answer_unnatural_unmodified] else []) @
               (if \<not> answer_correct \<and> \<not> answer_adequate
                then [msg_answer_incorrect_unmodified] else [])))"

text \<open>
  \<open>submit_qa\<close>, the callback of the submit button. Its three parameters are the current
  item: the button passes \<open>current_context\<close>, \<open>current_question\<close> and
  \<open>current_answer\<close>, the variables the function also reads from its closure.
  \<open>elapsed\<close> is \<open>time.time() - start_time\<close> and \<open>ids\<close> the supply of identifiers.
\<close>

definition submit_qa ::
  "form \<Rightarrow> real \<Rightarrow> (nat \<Rightarrow> string) \<Rightarrow> item \<Rightarrow> session \<Rightarrow> session" where
  "submit_qa f elapsed ids current s =
     (let context = fst current; question' = fst (snd current); answer = snd (snd current);
          s1 = s\<lparr>errors_question := [], errors_answer := [],
                 times := (times s)\<lparr>questions := (questions (times s))(index_input s \<mapsto> elapsed)\<rparr>\<rparr>;
          s2 = add_notes f context question' answer s1
      in if question_suitability f = question_unsuitable_option
         then export_data ids
                (s2\<lparr>unsuitable_questions := (unsuitable_questions s2)(context \<mapsto>
                      (case unsuitable_questions s2 context of None \<Rightarrow> [] | Some qs \<Rightarrow> qs) @
                      [question'])\<rparr>)
         else
           (let s3 = s2\<lparr>errors_question := question_errors f current,
                         errors_answer := answer_errors f current\<rparr>
            in if errors_question s3 = [] \<and> errors_answer s3 = []
               then export_data ids
                      (save_qa_pair current (question_naturalness f) (answer_naturalness f)
                         (answer_adequacy f) (answer_precision f)
                         (user_question f) (user_answer f) s3)
               else s3))"

text \<open>
  One run of \<open>run_qa_tool\<close> followed by a press of the submit button. The cursor
  moves first. At the end of the queue the function returns before it draws the button
  (line 695), so nothing can be pressed; otherwise the press calls \<open>submit_qa\<close> on the
  item under the cursor. (A cursor beyond the end of the queue would stop the run with a
  \<open>NameError\<close> before the button is drawn; no session reaches that.)
\<close>

definition press_submit :: "form \<Rightarrow> real \<Rightarrow> (nat \<Rightarrow> string) \<Rightarrow> session \<Rightarrow> session" where
  "press_submit f elapsed ids s =
     (let s' = cursor_loop s
      in if index_input s' < length (data s')
         then submit_qa f elapsed ids (data s' ! index_input s') s'
         else s')"

text \<open>
  The sessions of one reviewer: a first login, any run of the tool, any press of the
  submit button, and any new login, which loads the files again.
\<close>

inductive reachable :: "session \<Rightarrow> bool" where
  first_login: "reachable (load_user_profile_and_dataset username raw_data init_user)"
| run: "reachable s \<Longrightarrow> reachable (cursor_loop s)"
| press: "reachable s \<Longrightarrow> reachable (press_submit f elapsed ids s)"
| login_again: "reachable s \<Longrightarrow> reachable (load_user_profile_and_dataset (user s) raw_data (files s))"

subsection \<open>Predicates of the statements\<close>

text \<open>
  The set \<open>S\<close> of the cursor's contract, as a predicate on positions of the queue: the
  item at position \<open>i\<close> is marked complete or unsuitable. (Not in the source.)
\<close>

definition skipped :: "session \<Rightarrow> nat \<Rightarrow> bool" where
  "skipped s i = (qa_pair_annotated s (data s ! i) \<or> qa_pair_unsuitable s (data s ! i))"

text \<open>
  The invariant of the reviewer's profile (not in the source): every judgement's question
  is in the completed set, no judgement's question is listed as unsuitable under the
  judgement's context, and the profile and the unsuitable record on disk are those of the
  session.
\<close>

definition profile_inv :: "session \<Rightarrow> bool" where
  "profile_inv s =
     ((\<forall>kp \<in> set (kept_pairs s). Question kp \<in> completed_questions s) \<and>
      (\<forall>kp \<in> set (kept_pairs s). \<forall>qs. unsuitable_questions s (Context kp) = Some qs \<longrightarrow>
          Question kp \<notin> set qs) \<and>
      profile_json (files s) = kept_pairs s \<and>
      unsuitable_questions s =
        (case unsuitable_questions_json (files s) of None \<Rightarrow> Map.empty | Some m \<Rightarrow> m))"

section \<open>Sample sessions\<close>

text \<open>A queue in which the context \<open>c1\<close> comes back after \<open>c2\<close>.\<close>

definition queue_split :: "item list" where
  "queue_split = [(''c1'', ''q1'', ''a1''), (''c2'', ''q2'', ''a2''), (''c1'', ''q3'', ''a3'')]"

text \<open>A queue of one item, and the first session of a reviewer on it.\<close>

definition item_cat :: item where
  "item_cat = (''the cat'', ''who sat'', ''cat'')"

definition session_cat :: session where
  "session_cat = load_user_profile_and_dataset ''u'' [item_cat] init_user"

text \<open>
  A form that marks question and answer as natural, adequate and precise and leaves both
  texts as they are, but for one blank typed after the answer.
\<close>

definition form_blank :: form where
  "form_blank = \<lparr>question_suitability = question_suitable_option,
     question_naturalness = True, user_question = ''who sat'', question_explanation = [],
     answer_naturalness = True, answer_adequacy = True, answer_precision = True,
     user_answer = ''cat '', answer_explanation = Some []\<rparr>"

text \<open>The same judgement with the answer marked precise but not adequate.\<close>

definition form_precise :: form where
  "form_precise = \<lparr>question_suitability = question_suitable_option,
     question_naturalness = True, user_question = ''who sat'', question_explanation = [],
     answer_naturalness = True, answer_adequacy = False, answer_precision = True,
     user_answer = ''cat'', answer_explanation = Some []\<rparr>"

text \<open>A form that accepts the item as it is, and one that marks the question unsuitable.\<close>

definition form_accept :: form where
  "form_accept = \<lparr>question_suitability = question_suitable_option,
     question_naturalness = True, user_question = ''who sat'', question_explanation = [],
     answer_naturalness = True, answer_adequacy = True, answer_precision = True,
     user_answer = ''cat'', answer_explanation = Some []\<rparr>"

definition form_unsuitable :: form where
  "form_unsuitable = \<lparr>question_suitability = question_unsuitable_option,
     question_naturalness = False, user_question = ''who sat'', question_explanation = [],
     answer_naturalness = False, answer_adequacy = False, answer_precision = False,
     user_answer = ''cat'', answer_explanation = None\<rparr>"

text \<open>
  Two contexts with the same question, two questions of one context, and the first
  session of a reviewer on each of the two queues.
\<close>

definition queue_shared :: "item list" where
  "queue_shared = [(''the dog'', ''who sat'', ''dog''), (''the cat'', ''who sat'', ''cat'')]"

definition session_shared :: session where
  "session_shared = load_user_profile_and_dataset ''u'' queue_shared init_user"

definition queue_cat :: "item list" where
  "queue_cat = [(''the cat'', ''who ran'', ''cat''), (''the cat'', ''who sat'', ''cat'')]"

definition session_queue_cat :: session where
  "session_queue_cat = load_user_profile_and_dataset ''u'' queue_cat init_user"

text \<open>A form that accepts the item of the dog as it is.\<close>

definition form_accept_dog :: form where
  "form_accept_dog = \<lparr>question_suitability = question_suitable_option,
     question_naturalness = True, user_question = ''who sat'', question_explanation = [],
     answer_naturalness = True, answer_adequacy = True, answer_precision = True,
     user_answer = ''dog'', answer_explanation = Some []\<rparr>"

text \<open>
  A session in the middle of a queue of three items: the first is marked complete, the
  second unsuitable, the third is not marked.
\<close>

definition session_marked :: session where
  "session_marked = \<lparr>user = ''u'', index_input = 0, data = queue_split,
     completed_questions = {''q1''},
     unsuitable_questions = [''c2'' \<mapsto> [''q2'']],
     kept_pairs = [], session_notes = Map.empty,
     times = \<lparr>examples = Map.empty, questions = Map.empty\<rparr>,
     errors_question = [], errors_answer = [], files = init_user\<rparr>"

text \<open>
  An item whose generated answer is not in its context, the first session of a reviewer on
  it, and a form that marks the answer natural and adequate and corrects it.
\<close>

definition item_dog :: item where
  "item_dog = (''the cat sat'', ''who sat'', ''dog'')"

definition session_dog :: session where
  "session_dog = load_user_profile_and_dataset ''u'' [item_dog] init_user"

definition form_dog :: form where
  "form_dog = \<lparr>question_suitability = question_suitable_option,
     question_naturalness = True, user_question = ''who sat'', question_explanation = [],
     answer_naturalness = True, answer_adequacy = True, answer_precision = False,
     user_answer = ''cat'', answer_explanation = Some []\<rparr>"

text \<open>A data file of two contexts.\<close>

definition raw_sample :: "(string \<times> (string \<times> string) list) list" where
  "raw_sample = [(''c1'', [(''q1'', ''a1''), (''q3'', ''a3'')]), (''c2'', [(''q2'', ''a2'')])]"

section \<open>The offset lookup and the containment test agree\<close>

text \<open>
  The lookup raises exactly when the containment test fails; when it returns, the answer
  stands at the offset returned and at no lower one.
\<close>

lemma str_index_None_iff: "str_index c a = None \<longleftrightarrow> \<not> str_in a c"
  by (induction c) (auto simp: str_in_def sublist_Cons_right)

lemma str_index_Some:
  "str_index c a = Some i \<Longrightarrow> i + length a \<le> length c \<and> take (length a) (drop i c) = a"
proof (induction c arbitrary: i)
  case Nil
  then show ?case by (simp split: if_splits)
next
  case (Cons x xs)
  show ?case
  proof (cases "prefix a (x # xs)")
    case True
    then obtain zs where zs: "x # xs = a @ zs" by (auto simp: prefix_def)
    from True have "length a \<le> length (x # xs)" by (rule prefix_length_le)
    moreover have "take (length a) (x # xs) = a" unfolding zs by simp
    moreover from True Cons.prems have "i = 0" by simp
    ultimately show ?thesis by simp
  next
    case False
    with Cons.prems obtain j where "str_index xs a = Some j" "i = Suc j"
      by auto
    with Cons.IH [of j] show ?thesis by simp
  qed
qed

lemma str_index_least:
  "str_index c a = Some i \<Longrightarrow> j < i \<Longrightarrow> \<not> prefix a (drop j c)"
proof (induction c arbitrary: i j)
  case Nil
  then show ?case by (simp split: if_splits)
next
  case (Cons x xs)
  show ?case
  proof (cases "prefix a (x # xs)")
    case True
    with Cons.prems show ?thesis by simp
  next
    case False
    with Cons.prems obtain k where k: "str_index xs a = Some k" "i = Suc k"
      by auto
    show ?thesis
    proof (cases j)
      case 0
      with False show ?thesis by simp
    next
      case (Suc j')
      with Cons.IH [OF k(1), of j'] k(2) Cons.prems(2) show ?thesis by simp
    qed
  qed
qed

section \<open>The aggregator on one unchanged judgement\<close>

text \<open>
  C1 (as stated, refuted). The claim promises exactly one answer entry for a judgement
  whose original pair is natural and adequate and whose reviewer pair equals the original
  pair. On \<open>kp_same\<close> the hypotheses of the claim hold and the single question of the
  single context carries two answer entries: the reviewer's pair and the original pair
  are both added under the same question, and nothing removes the duplicate.
\<close>

theorem C1_one_answer_entry_counterexample:
  "Original_Question_Naturalness kp_same \<and> Original_Answer_Naturalness kp_same \<and>
   Original_Answer_Adequacy kp_same \<and>
   User_Query kp_same = Question kp_same \<and> User_Answer kp_same = Answer kp_same \<and>
   verified_entries (fst (kept_pairs_to_output zero_ids [kp_same])) =
     [(''the cat sat'', ''who sat'',
       [\<lparr>ans_text = ''cat'', answer_start = 4\<rparr>, \<lparr>ans_text = ''cat'', answer_start = 4\<rparr>])]"
  by (simp add: kept_pairs_to_output_def kept_pairs_loop_def agg_init_def process_kept_pair_def
      pairs_to_add_def original_pair_kept_def add_pair_def unnatural_of_def incorrect_of_def
      Let_def kp_same_def verified_entries_def)

text \<open>
  C1 (amended). For a single judgement whose original question and answer are natural
  and whose original answer is adequate, with the reviewer's question and answer equal to
  the original ones, \<open>kept_pairs_to_output\<close> returns a document with exactly one
  context and exactly one question; when the answer occurs in the context the question
  carries two identical answer entries, each with \<open>answer_start\<close> the offset
  \<open>context.index(answer)\<close>, and when it does not occur the question carries none; the
  unnatural list and the incorrect list are empty.
\<close>

theorem C1_same_pair_output:
  assumes "Original_Question_Naturalness kp" and "Original_Answer_Naturalness kp"
    and "Original_Answer_Adequacy kp"
    and "User_Query kp = Question kp" and "User_Answer kp = Answer kp"
  shows "kept_pairs_to_output ids [kp] =
     (\<lparr>squad_data = [\<lparr>title = ''Streamlit'', paragraphs =
         [\<lparr>qas = [\<lparr>question = Question kp,
                   answers = (case str_index (Context kp) (Answer kp) of
                                None \<Rightarrow> []
                              | Some i \<Rightarrow> [\<lparr>ans_text = Answer kp, answer_start = i\<rparr>,
                                          \<lparr>ans_text = Answer kp, answer_start = i\<rparr>]),
                   is_impossible = False, qa_id = ids 0\<rparr>],
           par_context = Context kp\<rparr>]\<rparr>], version = ''v2.0''\<rparr>, [], [])"
  using assms
  by (simp add: kept_pairs_to_output_def kept_pairs_loop_def agg_init_def process_kept_pair_def
      pairs_to_add_def original_pair_kept_def add_pair_def unnatural_of_def incorrect_of_def
      Let_def split: option.splits)

theorem C1_same_pair_output_witness:
  "kept_pairs_to_output zero_ids [kp_same] =
     (\<lparr>squad_data = [\<lparr>title = ''Streamlit'', paragraphs =
         [\<lparr>qas = [\<lparr>question = ''who sat'',
                   answers = [\<lparr>ans_text = ''cat'', answer_start = 4\<rparr>,
                              \<lparr>ans_text = ''cat'', answer_start = 4\<rparr>],
                   is_impossible = False, qa_id = zero_ids 0\<rparr>],
           par_context = ''the cat sat''\<rparr>]\<rparr>], version = ''v2.0''\<rparr>, [], [])"
  using C1_same_pair_output [of kp_same zero_ids]
  by (simp add: kp_same_def)

section \<open>What the loop of the aggregator computes\<close>

lemma entries_of_Nil [simp]: "entries_of c q [] = []"
  by (simp add: entries_of_def)

lemma entries_of_Cons [simp]: "entries_of c q (p # ps) = entry_of c q p @ entries_of c q ps"
  by (simp add: entries_of_def)

lemma entries_of_append [simp]:
  "entries_of c q (ps @ ps') = entries_of c q ps @ entries_of c q ps'"
  by (simp add: entries_of_def)

lemma entry_of_other: "fst p \<noteq> q \<Longrightarrow> entry_of c q p = []"
  by (simp add: entry_of_def)

lemma entries_of_absent: "q \<notin> fst ` set ps \<Longrightarrow> entries_of c q ps = []"
  by (induction ps) (auto simp: entry_of_def)

lemma list_or_empty_simps [simp]:
  "list_or_empty None = []" "list_or_empty (Some l) = l"
  by (simp_all add: list_or_empty_def)

lemma add_pair_lookup:
  "map_of (fst (add_pair c qa acc)) q =
     (if fst qa = q then Some (list_or_empty (map_of (fst acc) q) @ entry_of c q qa)
      else map_of (fst acc) q)"
  by (simp add: add_pair_def Let_def update_conv' entry_of_def list_or_empty_def
      split: option.splits)

lemma fold_add_pair_lookup:
  "map_of (fst (fold (add_pair c) ps acc)) q =
     (if q \<in> fst ` set ps then Some (list_or_empty (map_of (fst acc) q) @ entries_of c q ps)
      else map_of (fst acc) q)"
proof (induction ps arbitrary: acc)
  case Nil
  show ?case by simp
next
  case (Cons p ps)
  have IH: "map_of (fst (fold (add_pair c) (p # ps) acc)) q =
     (if q \<in> fst ` set ps
      then Some (list_or_empty (map_of (fst (add_pair c p acc)) q) @ entries_of c q ps)
      else map_of (fst (add_pair c p acc)) q)"
    using Cons.IH [of "add_pair c p acc"] by simp
  show ?case
  proof (cases "fst p = q")
    case True
    then show ?thesis
      unfolding IH add_pair_lookup by (simp add: entries_of_absent)
  next
    case False
    then show ?thesis
      unfolding IH add_pair_lookup by (simp add: entry_of_other)
  qed
qed

lemma process_kept_pair_answers_at:
  "answers_at (context_to_question_answers (process_kept_pair kp s)) c q =
     (if Context kp = c \<and> q \<in> fst ` set (pairs_to_add kp)
      then Some (list_or_empty (answers_at (context_to_question_answers s) c q) @
                 entries_of c q (pairs_to_add kp))
      else answers_at (context_to_question_answers s) c q)"
proof (cases "Context kp = c")
  case True
  then show ?thesis
    by (simp add: process_kept_pair_def Let_def answers_at_def update_conv' fold_add_pair_lookup
        split: option.splits)
next
  case False
  then show ?thesis
    by (simp add: process_kept_pair_def Let_def answers_at_def update_conv')
qed

lemma all_pairs_Nil [simp]: "all_pairs c [] = []"
  by (simp add: all_pairs_def)

lemma all_pairs_Cons [simp]:
  "all_pairs c (kp # kps) = (if Context kp = c then pairs_to_add kp else []) @ all_pairs c kps"
  by (simp add: all_pairs_def)

lemma fold_process_answers_at:
  "answers_at (context_to_question_answers (fold process_kept_pair kps s)) c q =
     (if q \<in> fst ` set (all_pairs c kps)
      then Some (list_or_empty (answers_at (context_to_question_answers s) c q) @
                 entries_of c q (all_pairs c kps))
      else answers_at (context_to_question_answers s) c q)"
proof (induction kps arbitrary: s)
  case Nil
  show ?case by simp
next
  case (Cons kp kps)
  let ?s = "process_kept_pair kp s"
  have step: "answers_at (context_to_question_answers (fold process_kept_pair (kp # kps) s)) c q =
     (if q \<in> fst ` set (all_pairs c kps)
      then Some (list_or_empty (answers_at (context_to_question_answers ?s) c q) @
                 entries_of c q (all_pairs c kps))
      else answers_at (context_to_question_answers ?s) c q)"
    using Cons.IH [of ?s] by simp
  show ?case
  proof (cases "Context kp = c")
    case ctx: True
    show ?thesis
    proof (cases "q \<in> fst ` set (pairs_to_add kp)")
      case True
      with ctx show ?thesis
        unfolding step process_kept_pair_answers_at
        by (simp add: image_Un entries_of_absent)
    next
      case False
      with ctx show ?thesis
        unfolding step process_kept_pair_answers_at
        by (simp add: image_Un entries_of_absent)
    qed
  next
    case False
    then show ?thesis
      unfolding step process_kept_pair_answers_at
      by simp
  qed
qed

lemma qas_entries:
  assumes "length ks = length m"
  shows "map (\<lambda>e. (c, question e, answers e))
     (map (\<lambda>(k, q, ans). \<lparr>question = q, answers = ans, is_impossible = False, qa_id = ids k\<rparr>)
        (zip ks m)) = map (\<lambda>(q, ans). (c, q, ans)) m"
proof -
  have "map (\<lambda>e. (c, question e, answers e))
     (map (\<lambda>(k, q, ans). \<lparr>question = q, answers = ans, is_impossible = False, qa_id = ids k\<rparr>)
        (zip ks m)) = map (\<lambda>(q, ans). (c, q, ans)) (map snd (zip ks m))"
    by (simp add: case_prod_beta)
  also have "map snd (zip ks m) = m"
    using assms by (rule map_snd_zip)
  finally show ?thesis .
qed

lemma paragraphs_of_entries:
  "concat (map (\<lambda>p. map (\<lambda>e. (par_context p, question e, answers e)) (qas p))
                 (paragraphs_of ids n d)) =
   concat (map (\<lambda>(c, m). map (\<lambda>(q, ans). (c, q, ans)) m) d)"
proof (induction d arbitrary: n)
  case Nil
  show ?case by simp
next
  case (Cons x d)
  obtain c m where x: "x = (c, m)" by (cases x)
  have hd: "map (\<lambda>e. (c, question e, answers e))
     (map (\<lambda>(k, q, ans). \<lparr>question = q, answers = ans, is_impossible = False, qa_id = ids k\<rparr>)
        (zip [n..<n + length m] m)) = map (\<lambda>(q, ans). (c, q, ans)) m"
    by (rule qas_entries) simp
  show ?case
    unfolding x using Cons.IH [of "n + length m"] hd
    by (simp del: map_map)
qed

lemma verified_entries_output:
  "verified_entries (fst (kept_pairs_to_output ids kps)) =
   concat (map (\<lambda>(c, m). map (\<lambda>(q, ans). (c, q, ans)) m)
     (context_to_question_answers (kept_pairs_loop kps)))"
  by (simp add: verified_entries_def kept_pairs_to_output_def Let_def paragraphs_of_entries)

lemma answers_at_in_entries:
  assumes "answers_at d c q = Some ans"
  shows "(c, q, ans) \<in> set (concat (map (\<lambda>(c, m). map (\<lambda>(q, ans). (c, q, ans)) m) d))"
proof -
  from assms obtain m where m: "map_of d c = Some m" "map_of m q = Some ans"
    by (auto simp: answers_at_def split: option.splits)
  then have "(c, m) \<in> set d" "(q, ans) \<in> set m"
    by (auto dest: map_of_SomeD)
  then show ?thesis by force
qed

lemma entries_of_all_fail:
  "\<forall>p \<in> set ps. fst p = q \<longrightarrow> str_index c (snd p) = None \<Longrightarrow> entries_of c q ps = []"
  by (induction ps) (auto simp: entry_of_def)

lemma set_all_pairs:
  "set (all_pairs c kps) = (\<Union>kp \<in> {k \<in> set kps. Context k = c}. set (pairs_to_add kp))"
  by (simp add: all_pairs_def)

lemma add_pair_log:
  "snd (add_pair c qa acc) =
     snd acc @ (if str_index c (snd qa) = None then [(c, fst qa, snd qa)] else [])"
  by (simp add: add_pair_def Let_def split: option.splits)

lemma fold_add_pair_log:
  "snd (fold (add_pair c) ps acc) =
     snd acc @ map (\<lambda>qa. (c, fst qa, snd qa)) (filter (\<lambda>qa. str_index c (snd qa) = None) ps)"
  by (induction ps arbitrary: acc) (simp_all add: add_pair_log)

lemma process_kept_pair_logged:
  "logged (process_kept_pair kp s) = logged s @ failures_of kp"
  by (simp add: process_kept_pair_def Let_def fold_add_pair_log failures_of_def)

lemma fold_process_logged:
  "logged (fold process_kept_pair kps s) = logged s @ concat (map failures_of kps)"
  by (induction kps arbitrary: s) (simp_all add: process_kept_pair_logged)

lemma kept_pairs_logged_eq: "kept_pairs_logged kps = concat (map failures_of kps)"
  by (simp add: kept_pairs_logged_def kept_pairs_loop_def fold_process_logged agg_init_def)

lemma process_kept_pair_unnatural:
  "unnatural (process_kept_pair kp s) = unnatural s @ unnatural_of kp"
  by (simp add: process_kept_pair_def Let_def)

lemma process_kept_pair_incorrect:
  "incorrect (process_kept_pair kp s) = incorrect s @ incorrect_of kp"
  by (simp add: process_kept_pair_def Let_def)

text \<open>
  One judgement, from any state of the accumulators: the candidate pairs, what the two
  side lists gain, and what the dictionary gains under the judgement's context.
\<close>

lemma one_judgement_effect:
  "(pairs_to_add kp = [(User_Query kp, User_Answer kp), (Question kp, Answer kp)]) =
     (Original_Question_Naturalness kp \<and> Original_Answer_Naturalness kp \<and>
      (Original_Answer_Adequacy kp \<or> Original_Answer_Correctness kp)) \<and>
   (pairs_to_add kp = [(User_Query kp, User_Answer kp)]) =
     (\<not> (Original_Question_Naturalness kp \<and> Original_Answer_Naturalness kp \<and>
      (Original_Answer_Adequacy kp \<or> Original_Answer_Correctness kp))) \<and>
   unnatural (process_kept_pair kp s) =
     unnatural s @
     (if Original_Question_Naturalness kp \<and> Original_Answer_Naturalness kp \<and>
         (Original_Answer_Adequacy kp \<or> Original_Answer_Correctness kp)
      then []
      else (if Original_Question_Naturalness kp then [] else [Question kp]) @
           (if Original_Answer_Naturalness kp then [] else [Answer kp])) \<and>
   incorrect (process_kept_pair kp s) =
     incorrect s @
     (if Original_Question_Naturalness kp \<and> Original_Answer_Naturalness kp \<and>
         (Original_Answer_Adequacy kp \<or> Original_Answer_Correctness kp)
      then []
      else if Original_Answer_Adequacy kp \<or> Original_Answer_Correctness kp then []
           else [(Question kp, Answer kp)]) \<and>
   answers_at (context_to_question_answers (process_kept_pair kp s)) c q =
     (if Context kp = c \<and> q \<in> fst ` set (pairs_to_add kp)
      then Some (list_or_empty (answers_at (context_to_question_answers s) c q) @
                 entries_of c q (pairs_to_add kp))
      else answers_at (context_to_question_answers s) c q)"
proof -
  have p: "(pairs_to_add kp = [(User_Query kp, User_Answer kp), (Question kp, Answer kp)]) =
     (Original_Question_Naturalness kp \<and> Original_Answer_Naturalness kp \<and>
      (Original_Answer_Adequacy kp \<or> Original_Answer_Correctness kp))"
    by (simp add: pairs_to_add_def original_pair_kept_def)
  have p': "(pairs_to_add kp = [(User_Query kp, User_Answer kp)]) =
     (\<not> (Original_Question_Naturalness kp \<and> Original_Answer_Naturalness kp \<and>
      (Original_Answer_Adequacy kp \<or> Original_Answer_Correctness kp)))"
    by (simp add: pairs_to_add_def original_pair_kept_def)
  have u: "unnatural (process_kept_pair kp s) =
     unnatural s @
     (if Original_Question_Naturalness kp \<and> Original_Answer_Naturalness kp \<and>
         (Original_Answer_Adequacy kp \<or> Original_Answer_Correctness kp)
      then []
      else (if Original_Question_Naturalness kp then [] else [Question kp]) @
           (if Original_Answer_Naturalness kp then [] else [Answer kp]))"
    by (simp add: process_kept_pair_unnatural unnatural_of_def original_pair_kept_def)
  have i: "incorrect (process_kept_pair kp s) =
     incorrect s @
     (if Original_Question_Naturalness kp \<and> Original_Answer_Naturalness kp \<and>
         (Original_Answer_Adequacy kp \<or> Original_Answer_Correctness kp)
      then []
      else if Original_Answer_Adequacy kp \<or> Original_Answer_Correctness kp then []
           else [(Question kp, Answer kp)])"
    by (simp add: process_kept_pair_incorrect incorrect_of_def original_pair_kept_def)
  show ?thesis
    using p p' u i process_kept_pair_answers_at [of kp s c q] by blast
qed

text \<open>
  C10. \<open>kept_pairs_to_output\<close> is total: a failed offset lookup is caught and logged.
  If a judgement of the list has a candidate pair \<open>(q, a0)\<close> and every candidate pair for
  \<open>q\<close> under that context, in any judgement of the list, has an answer that does not
  occur in the context, then the output still holds the question \<open>q\<close> under the context,
  with an empty list of answers, and the failed triple is in the log.
\<close>

theorem C10_failed_lookup_keeps_question:
  assumes "kp \<in> set kps" and "(q, a0) \<in> set (pairs_to_add kp)"
    and "\<forall>kp' \<in> set kps. \<forall>a. Context kp' = Context kp \<and> (q, a) \<in> set (pairs_to_add kp')
            \<longrightarrow> str_index (Context kp) a = None"
  shows "(Context kp, q, []) \<in> set (verified_entries (fst (kept_pairs_to_output ids kps))) \<and>
         (Context kp, q, a0) \<in> set (kept_pairs_logged kps)"
proof -
  let ?c = "Context kp"
  have occurs: "q \<in> fst ` set (all_pairs ?c kps)"
    using assms(1,2) unfolding set_all_pairs by force
  have "\<forall>p \<in> set (all_pairs ?c kps). fst p = q \<longrightarrow> str_index ?c (snd p) = None"
    using assms(3) unfolding set_all_pairs by force
  then have "entries_of ?c q (all_pairs ?c kps) = []"
    by (rule entries_of_all_fail)
  moreover have "answers_at (context_to_question_answers agg_init) ?c q = None"
    by (simp add: agg_init_def answers_at_def)
  ultimately have "answers_at (context_to_question_answers (kept_pairs_loop kps)) ?c q = Some []"
    using occurs unfolding kept_pairs_loop_def fold_process_answers_at by simp
  then have one: "(?c, q, []) \<in> set (verified_entries (fst (kept_pairs_to_output ids kps)))"
    unfolding verified_entries_output by (rule answers_at_in_entries)
  have "str_index ?c a0 = None"
    using assms by blast
  with assms(2) have "(?c, q, a0) \<in> set (failures_of kp)"
    by (force simp: failures_of_def)
  with assms(1) have two: "(?c, q, a0) \<in> set (kept_pairs_logged kps)"
    unfolding kept_pairs_logged_eq by auto
  from one two show ?thesis ..
qed

theorem C10_failed_lookup_keeps_question_witness:
  "(''the cat sat'', ''who sat?'', []) \<in>
     set (verified_entries (fst (kept_pairs_to_output zero_ids [kp_missing]))) \<and>
   (''the cat sat'', ''who sat?'', ''cat  '') \<in> set (kept_pairs_logged [kp_missing])"
  using C10_failed_lookup_keeps_question [of kp_missing "[kp_missing]" "''who sat?''" "''cat  ''" zero_ids]
  by (simp add: kp_missing_def pairs_to_add_def original_pair_kept_def)

section \<open>Stored answers and the context\<close>

lemma strip_samples:
  "strip ''cat '' = ''cat''" "strip ''cat'' = ''cat''" "strip ''dog'' = ''dog''"
  "strip ''who sat'' = ''who sat''" "strip [] = []"
  by (simp_all add: strip_def isspace_def)

lemma cursor_loop_stay:
  "index_input s < length (data s) \<Longrightarrow> \<not> qa_pair_annotated s (data s ! index_input s) \<Longrightarrow>
   \<not> qa_pair_unsuitable s (data s ! index_input s) \<Longrightarrow> cursor_loop s = s"
  by (subst cursor_loop.simps) simp

lemma cursor_loop_skip:
  "index_input s < length (data s) \<Longrightarrow>
   qa_pair_annotated s (data s ! index_input s) \<or> qa_pair_unsuitable s (data s ! index_input s) \<Longrightarrow>
   cursor_loop s = cursor_loop (s\<lparr>index_input := index_input s + 1\<rparr>)"
  by (subst cursor_loop.simps) simp

lemma cursor_loop_end: "\<not> index_input s < length (data s) \<Longrightarrow> cursor_loop s = s"
  by (subst cursor_loop.simps) simp

lemma session_cat_eq:
  "session_cat = \<lparr>user = ''u'', index_input = 0, data = [item_cat], completed_questions = {},
     unsuitable_questions = Map.empty, kept_pairs = [], session_notes = Map.empty,
     times = \<lparr>examples = Map.empty, questions = Map.empty\<rparr>, errors_question = [],
     errors_answer = [], files = init_user\<rparr>"
  by (simp add: session_cat_def load_user_profile_and_dataset_def shuffle_qa_data_def init_user_def)

lemma cursor_session_cat: "cursor_loop session_cat = session_cat"
  by (rule cursor_loop_stay)
     (simp_all add: session_cat_eq item_cat_def qa_pair_annotated_def qa_pair_unsuitable_def)

lemma errs_blank: "question_errors form_blank item_cat = []" "answer_errors form_blank item_cat = []"
  by (simp_all add: question_errors_def answer_errors_def form_blank_def item_cat_def Let_def
      strip_samples str_in_def sublist_Cons_right)

text \<open>
  C3 (the code at the failing input). The reviewer leaves question and answer as they
  are, ticks every box, and the answer field holds the answer followed by one blank. The
  validator tests the stripped answer, which is in the context, and reports nothing; the
  judgement stored is the field as typed, which is not in the context; the aggregator's
  offset lookup for it raises and the triple is logged.
\<close>

theorem C3_stored_answer_not_in_context:
  "reachable (press_submit form_blank 1 zero_ids session_cat) \<and>
   errors_question (press_submit form_blank 1 zero_ids session_cat) = [] \<and>
   errors_answer (press_submit form_blank 1 zero_ids session_cat) = [] \<and>
   map User_Answer (kept_pairs (press_submit form_blank 1 zero_ids session_cat)) = [''cat ''] \<and>
   map Context (kept_pairs (press_submit form_blank 1 zero_ids session_cat)) = [''the cat''] \<and>
   \<not> str_in ''cat '' ''the cat'' \<and>
   kept_pairs_logged (kept_pairs (press_submit form_blank 1 zero_ids session_cat)) =
     [(''the cat'', ''who sat'', ''cat '')]"
proof -
  have s: "press_submit form_blank 1 zero_ids session_cat =
      submit_qa form_blank 1 zero_ids item_cat session_cat"
    by (simp add: press_submit_def cursor_session_cat Let_def) (simp add: session_cat_eq)
  have k: "kept_pairs (submit_qa form_blank 1 zero_ids item_cat session_cat) =
     [\<lparr>Context = ''the cat'', Question = ''who sat'', Answer = ''cat'',
       Original_Question_Naturalness = True, Original_Answer_Naturalness = True,
       Original_Answer_Adequacy = True, Original_Answer_Correctness = True,
       User_Query = ''who sat'', User_Answer = ''cat ''\<rparr>]"
    by (simp add: submit_qa_def Let_def errs_blank add_notes_def save_qa_pair_def export_data_def
        session_cat_eq split: prod.splits)
       (simp add: form_blank_def item_cat_def)
  have e: "errors_question (submit_qa form_blank 1 zero_ids item_cat session_cat) = []"
      "errors_answer (submit_qa form_blank 1 zero_ids item_cat session_cat) = []"
    by (simp_all add: submit_qa_def Let_def errs_blank add_notes_def save_qa_pair_def export_data_def
        split: prod.splits)
  have n: "\<not> str_in ''cat '' ''the cat''"
    by (simp add: str_in_def sublist_Cons_right)
  have l: "kept_pairs_logged [\<lparr>Context = ''the cat'', Question = ''who sat'', Answer = ''cat'',
       Original_Question_Naturalness = True, Original_Answer_Naturalness = True,
       Original_Answer_Adequacy = True, Original_Answer_Correctness = True,
       User_Query = ''who sat'', User_Answer = ''cat ''\<rparr>] = [(''the cat'', ''who sat'', ''cat '')]"
    by (simp add: kept_pairs_logged_def kept_pairs_loop_def agg_init_def process_kept_pair_def
        pairs_to_add_def original_pair_kept_def add_pair_def Let_def)
  have r: "reachable (press_submit form_blank 1 zero_ids session_cat)"
    unfolding session_cat_def by (intro reachable.press reachable.first_login)
  show ?thesis using r unfolding s using k e n l by simp
qed

section \<open>The shuffler returns its input\<close>


lemma shuffle_mset: "mset (shuffle_qa_data username qa_data) = mset qa_data"
  by (simp add: shuffle_qa_data_def)

lemma shuffle_keeps_contiguous:
  "contexts_contiguous qa_data \<Longrightarrow> contexts_contiguous (shuffle_qa_data username qa_data)"
  by (simp add: shuffle_qa_data_def)

lemma contiguous_Cons:
  "contexts_contiguous xs \<Longrightarrow> fst x \<notin> fst ` set xs \<Longrightarrow> contexts_contiguous (x # xs)"
  by (cases xs) auto

lemma contiguous_block:
  assumes "contexts_contiguous rest" and "c \<notin> fst ` set rest"
  shows "contexts_contiguous (map (\<lambda>(q, a). (c, q, a)) qa @ rest)"
proof (induction qa)
  case Nil
  show ?case using assms(1) by simp
next
  case (Cons p ps)
  obtain q a where p: "p = (q, a)" by (cases p)
  show ?case
  proof (cases ps)
    case Nil
    then show ?thesis using assms by (simp add: p contiguous_Cons)
  next
    case (Cons p' ps')
    then show ?thesis using Cons.IH by (simp add: p case_prod_beta)
  qed
qed

lemma contexts_of_flatten: "fst ` set (flatten_raw_data raw) \<subseteq> fst ` set raw"
  by (force simp: flatten_raw_data_def)

lemma flatten_contiguous:
  "distinct (map fst raw) \<Longrightarrow> contexts_contiguous (flatten_raw_data raw)"
proof (induction raw)
  case Nil
  show ?case by (simp add: flatten_raw_data_def)
next
  case (Cons x raw)
  obtain c qa where x: "x = (c, qa)" by (cases x)
  have eq: "flatten_raw_data (x # raw) = map (\<lambda>(q, a). (c, q, a)) qa @ flatten_raw_data raw"
    by (simp add: flatten_raw_data_def x)
  from Cons.prems have "c \<notin> fst ` set raw" by (simp add: x)
  with contexts_of_flatten [of raw] have "c \<notin> fst ` set (flatten_raw_data raw)" by blast
  moreover from Cons have "contexts_contiguous (flatten_raw_data raw)" by simp
  ultimately show ?case unfolding eq by (intro contiguous_block)
qed



section \<open>The validator\<close>

lemma submit_qa_errors:
  "question_suitability f = question_suitable_option \<Longrightarrow>
   errors_question (submit_qa f elapsed ids current s) = question_errors f current \<and>
   errors_answer (submit_qa f elapsed ids current s) = answer_errors f current"
  by (simp add: submit_qa_def Let_def add_notes_def save_qa_pair_def export_data_def
      split: prod.splits)

text \<open>
  C4. A suitable question is submitted with the answer marked precise but not adequate,
  and no other rule is violated: question and answer are not blank after stripping, the
  question is marked natural exactly when it is unmodified, the stripped answer occurs in
  the context, and the answer is marked natural exactly when it is unmodified. Then the
  violations reported are exactly one message, the one of the rule that a precise answer
  is adequate.
\<close>

theorem C4_precise_not_adequate:
  assumes "question_suitability f = question_suitable_option"
    and "answer_precision f" and "\<not> answer_adequacy f"
    and "strip (user_question f) \<noteq> []" and "strip (user_answer f) \<noteq> []"
    and "question_naturalness f = (strip (user_question f) = strip (fst (snd current)))"
    and "str_in (strip (user_answer f)) (fst current)"
    and "answer_naturalness f = (strip (user_answer f) = strip (snd (snd current)))"
  shows "errors_question (submit_qa f elapsed ids current s) @
         errors_answer (submit_qa f elapsed ids current s) = [msg_precise_not_adequate]"
proof -
  have "question_errors f current = []"
    using assms by (simp add: question_errors_def Let_def)
  moreover have "answer_errors f current = [msg_precise_not_adequate]"
    using assms by (simp add: answer_errors_def Let_def)
  ultimately show ?thesis
    using submit_qa_errors [OF assms(1)] by simp
qed

theorem C4_precise_not_adequate_witness:
  "errors_question (submit_qa form_precise 1 zero_ids item_cat session_cat) @
   errors_answer (submit_qa form_precise 1 zero_ids item_cat session_cat) =
     [msg_precise_not_adequate]"
  using C4_precise_not_adequate [of form_precise item_cat 1 zero_ids session_cat]
  by (simp add: form_precise_def item_cat_def strip_samples str_in_def sublist_Cons_right)

lemma submit_qa_rejected:
  assumes "question_suitability f = question_suitable_option"
    and "question_errors f current \<noteq> [] \<or> answer_errors f current \<noteq> []"
  shows "submit_qa f elapsed ids current s =
     (add_notes f (fst current) (fst (snd current)) (snd (snd current))
        (s\<lparr>errors_question := [], errors_answer := [],
           times := (times s)\<lparr>questions := (questions (times s))(index_input s \<mapsto> elapsed)\<rparr>\<rparr>))
       \<lparr>errors_question := question_errors f current, errors_answer := answer_errors f current\<rparr>"
  using assms by (auto simp add: submit_qa_def Let_def)

lemma add_notes_frame:
  "kept_pairs (add_notes f c q a s) = kept_pairs s"
  "completed_questions (add_notes f c q a s) = completed_questions s"
  "unsuitable_questions (add_notes f c q a s) = unsuitable_questions s"
  "files (add_notes f c q a s) = files s"
  "index_input (add_notes f c q a s) = index_input s"
  "data (add_notes f c q a s) = data s"
  "user (add_notes f c q a s) = user s"
  "errors_question (add_notes f c q a s) = errors_question s"
  "errors_answer (add_notes f c q a s) = errors_answer s"
  "times (add_notes f c q a s) = times s"
  by (simp_all add: add_notes_def Let_def)

lemma cursor_loop_cong:
  assumes "index_input t = index_input s" "data t = data s"
    "completed_questions t = completed_questions s" "unsuitable_questions t = unsuitable_questions s"
  shows "index_input (cursor_loop t) = index_input (cursor_loop s)"
  using assms
proof (induction s arbitrary: t rule: cursor_loop.induct)
  case (1 s)
  show ?case
  proof (cases "index_input s < length (data s)")
    case False
    then show ?thesis using "1.prems" by (simp add: cursor_loop_end)
  next
    case lt: True
    show ?thesis
    proof (cases "qa_pair_annotated s (data s ! index_input s) \<or> qa_pair_unsuitable s (data s ! index_input s)")
      case True
      then have t: "qa_pair_annotated t (data t ! index_input t) \<or> qa_pair_unsuitable t (data t ! index_input t)"
        using "1.prems" by (simp add: qa_pair_annotated_def qa_pair_unsuitable_def)
      have "index_input (cursor_loop (t\<lparr>index_input := index_input t + 1\<rparr>)) =
            index_input (cursor_loop (s\<lparr>index_input := index_input s + 1\<rparr>))"
        using lt True "1.prems" by (intro "1.IH") simp_all
      then show ?thesis
        using lt True t "1.prems" by (simp add: cursor_loop_skip)
    next
      case False
      then have t: "\<not> qa_pair_annotated t (data t ! index_input t)" "\<not> qa_pair_unsuitable t (data t ! index_input t)"
        using "1.prems" by (simp_all add: qa_pair_annotated_def qa_pair_unsuitable_def)
      show ?thesis
        using lt False t "1.prems" by (simp add: cursor_loop_stay)
    qed
  qed
qed

text \<open>
  C9. A submission for a suitable question with at least one violation leaves the
  kept pairs, the completed questions, the unsuitable record and every file as they were
  (\<open>export_data\<close> is not called); the violations are in the two error lists of the
  session; the queue is unchanged and the cursor rests where it rested, so the same item
  is shown again and can be submitted again.
\<close>

theorem C9_rejected_submission:
  assumes "question_suitability f = question_suitable_option"
    and "question_errors f current \<noteq> [] \<or> answer_errors f current \<noteq> []"
  shows "kept_pairs (submit_qa f elapsed ids current s) = kept_pairs s \<and>
         completed_questions (submit_qa f elapsed ids current s) = completed_questions s \<and>
         unsuitable_questions (submit_qa f elapsed ids current s) = unsuitable_questions s \<and>
         files (submit_qa f elapsed ids current s) = files s \<and>
         errors_question (submit_qa f elapsed ids current s) = question_errors f current \<and>
         errors_answer (submit_qa f elapsed ids current s) = answer_errors f current \<and>
         data (submit_qa f elapsed ids current s) = data s \<and>
         index_input (cursor_loop (submit_qa f elapsed ids current s)) = index_input (cursor_loop s)"
proof -
  let ?s' = "submit_qa f elapsed ids current s"
  have frame: "kept_pairs ?s' = kept_pairs s" "completed_questions ?s' = completed_questions s"
    "unsuitable_questions ?s' = unsuitable_questions s" "files ?s' = files s"
    "errors_question ?s' = question_errors f current" "errors_answer ?s' = answer_errors f current"
    "data ?s' = data s" "index_input ?s' = index_input s"
    unfolding submit_qa_rejected [OF assms] by (simp_all add: add_notes_frame)
  have "index_input (cursor_loop ?s') = index_input (cursor_loop s)"
    by (rule cursor_loop_cong) (simp_all add: frame)
  with frame show ?thesis by simp
qed

lemma errs_precise: "answer_errors form_precise item_cat = [msg_precise_not_adequate]"
  by (simp add: answer_errors_def form_precise_def item_cat_def Let_def strip_samples str_in_def
      sublist_Cons_right)

theorem C9_rejected_submission_witness:
  "kept_pairs (submit_qa form_precise 1 zero_ids item_cat session_cat) = [] \<and>
   completed_questions (submit_qa form_precise 1 zero_ids item_cat session_cat) = {} \<and>
   files (submit_qa form_precise 1 zero_ids item_cat session_cat) = init_user \<and>
   errors_answer (submit_qa form_precise 1 zero_ids item_cat session_cat) =
     [msg_precise_not_adequate] \<and>
   index_input (cursor_loop (submit_qa form_precise 1 zero_ids item_cat session_cat)) = 0"
proof -
  have h1: "question_suitability form_precise = question_suitable_option"
    by (simp add: form_precise_def)
  have h2: "question_errors form_precise item_cat \<noteq> [] \<or> answer_errors form_precise item_cat \<noteq> []"
    by (simp add: errs_precise)
  show ?thesis
    using C9_rejected_submission [OF h1 h2, of 1 zero_ids session_cat]
    by (simp add: errs_precise cursor_session_cat) (simp add: session_cat_eq)
qed

section \<open>The queue cursor\<close>

lemma skipped_index [simp]: "skipped (s\<lparr>index_input := k\<rparr>) i = skipped s i"
  by (simp add: skipped_def qa_pair_annotated_def qa_pair_unsuitable_def)

lemma cursor_loop_only_index: "cursor_loop s = s\<lparr>index_input := index_input (cursor_loop s)\<rparr>"
proof (induction s rule: cursor_loop.induct)
  case (1 s)
  show ?case
  proof (cases "index_input s < length (data s) \<and> skipped s (index_input s)")
    case True
    then have eq: "cursor_loop s = cursor_loop (s\<lparr>index_input := index_input s + 1\<rparr>)"
      by (simp add: cursor_loop_skip skipped_def)
    have "cursor_loop (s\<lparr>index_input := index_input s + 1\<rparr>) =
          s\<lparr>index_input := index_input s + 1\<rparr>
           \<lparr>index_input := index_input (cursor_loop (s\<lparr>index_input := index_input s + 1\<rparr>))\<rparr>"
      using True by (intro "1.IH") (simp_all add: skipped_def)
    then show ?thesis unfolding eq by simp
  next
    case False
    then have "cursor_loop s = s"
      by (subst cursor_loop.simps) (auto simp: skipped_def)
    then show ?thesis by simp
  qed
qed

lemma cursor_loop_position:
  assumes "index_input s \<le> length (data s)"
  shows "index_input s \<le> index_input (cursor_loop s) \<and>
         index_input (cursor_loop s) \<le> length (data s) \<and>
         (\<forall>i. index_input s \<le> i \<and> i < index_input (cursor_loop s) \<longrightarrow> skipped s i) \<and>
         (index_input (cursor_loop s) < length (data s) \<longrightarrow> \<not> skipped s (index_input (cursor_loop s)))"
  using assms
proof (induction s rule: cursor_loop.induct)
  case (1 s)
  show ?case
  proof (cases "index_input s < length (data s) \<and> skipped s (index_input s)")
    case True
    let ?t = "s\<lparr>index_input := index_input s + 1\<rparr>"
    have eq: "cursor_loop s = cursor_loop ?t"
      using True by (simp add: cursor_loop_skip skipped_def)
    have IH: "index_input ?t \<le> index_input (cursor_loop ?t) \<and>
         index_input (cursor_loop ?t) \<le> length (data ?t) \<and>
         (\<forall>i. index_input ?t \<le> i \<and> i < index_input (cursor_loop ?t) \<longrightarrow> skipped ?t i) \<and>
         (index_input (cursor_loop ?t) < length (data ?t) \<longrightarrow> \<not> skipped ?t (index_input (cursor_loop ?t)))"
      using True by (intro "1.IH") (simp_all add: skipped_def)
    have "skipped s i" if "index_input s \<le> i" "i < index_input (cursor_loop ?t)" for i
    proof (cases "i = index_input s")
      case True
      with \<open>index_input s < length (data s) \<and> skipped s (index_input s)\<close> show ?thesis by simp
    next
      case False
      with that have "index_input ?t \<le> i" by simp
      with IH that show ?thesis by simp
    qed
    with IH show ?thesis unfolding eq by simp
  next
    case False
    then have "cursor_loop s = s"
      by (subst cursor_loop.simps) (auto simp: skipped_def)
    with False "1.prems" show ?thesis by auto
  qed
qed

text \<open>
  C6. In a session whose cursor is inside the queue with every item before it marked
  (complete or unsuitable; at position 0 there is none), the loop leaves the cursor on
  the first position whose item is not marked: every position before it is marked, it is
  inside the queue and not marked itself. When every item of the queue is marked the
  cursor ends at the length of the queue, which is the end-of-queue signal.
\<close>

theorem C6_cursor_first_unmarked:
  assumes "index_input s \<le> length (data s)" and "\<forall>i < index_input s. skipped s i"
  shows "(\<forall>i < index_input (cursor_loop s). skipped s i) \<and>
         (if \<forall>i < length (data s). skipped s i
          then index_input (cursor_loop s) = length (data s) \<and> end_of_queue (cursor_loop s)
          else index_input (cursor_loop s) < length (data s) \<and>
               \<not> skipped s (index_input (cursor_loop s)) \<and> \<not> end_of_queue (cursor_loop s))"
proof -
  let ?j = "index_input (cursor_loop s)"
  note pos = cursor_loop_position [OF assms(1)]
  have d: "data (cursor_loop s) = data s"
    by (subst cursor_loop_only_index) simp
  have before: "\<forall>i < ?j. skipped s i"
  proof (intro allI impI)
    fix i assume "i < ?j"
    show "skipped s i"
    proof (cases "i < index_input s")
      case True with assms(2) show ?thesis by simp
    next
      case False with pos \<open>i < ?j\<close> show ?thesis by simp
    qed
  qed
  show ?thesis
  proof (cases "\<forall>i < length (data s). skipped s i")
    case True
    with pos have "?j = length (data s)" by (metis le_neq_implies_less)
    with True before show ?thesis by (simp add: end_of_queue_def d)
  next
    case False
    then obtain i where i: "i < length (data s)" "\<not> skipped s i" by blast
    with before have "\<not> i < ?j" by blast
    with i pos have "?j < length (data s)" by simp
    with pos False before show ?thesis by (simp add: end_of_queue_def d)
  qed
qed

theorem C6_cursor_first_unmarked_witness:
  "index_input session_marked \<le> length (data session_marked) \<and>
   index_input (cursor_loop session_marked) = 2 \<and>
   \<not> end_of_queue (cursor_loop session_marked)"
proof -
  have len: "length (data session_marked) = 3" and ix: "index_input session_marked = 0"
    by (simp_all add: session_marked_def queue_split_def)
  have sk: "skipped session_marked 0" "skipped session_marked 1" "\<not> skipped session_marked 2"
    by (simp_all add: skipped_def session_marked_def queue_split_def qa_pair_annotated_def
        qa_pair_unsuitable_def)
  have "(2::nat) < length (data session_marked)"
    by (simp add: len)
  with sk(3) have notall: "\<not> (\<forall>i < length (data session_marked). skipped session_marked i)"
    by blast
  have h1: "index_input session_marked \<le> length (data session_marked)"
    by (simp add: ix)
  have h2: "\<forall>i < index_input session_marked. skipped session_marked i"
    by (simp add: ix)
  have "index_input (cursor_loop session_marked) < length (data session_marked) \<and>
        \<not> skipped session_marked (index_input (cursor_loop session_marked)) \<and>
        \<not> end_of_queue (cursor_loop session_marked)"
    using C6_cursor_first_unmarked [OF h1 h2] notall by simp
  then have j: "index_input (cursor_loop session_marked) < 3"
    "\<not> skipped session_marked (index_input (cursor_loop session_marked))"
    "\<not> end_of_queue (cursor_loop session_marked)"
    by (simp_all add: len)
  have "index_input (cursor_loop session_marked) \<noteq> 0" "index_input (cursor_loop session_marked) \<noteq> 1"
    using j(2) sk(1,2) by metis+
  with j(1) have "index_input (cursor_loop session_marked) = 2" by arith
  with j(3) h1 show ?thesis by simp
qed

section \<open>The invariant of the profile\<close>

lemma inv_load:
  assumes "profile_inv s"
  shows "profile_inv (load_user_profile_and_dataset u raw (files s))"
  using assms
  by (auto simp: profile_inv_def load_user_profile_and_dataset_def split: option.splits)

lemma inv_first: "profile_inv (load_user_profile_and_dataset u raw init_user)"
  by (simp add: profile_inv_def load_user_profile_and_dataset_def init_user_def)

lemma inv_cursor: "profile_inv s \<Longrightarrow> profile_inv (cursor_loop s)"
  by (subst cursor_loop_only_index) (simp add: profile_inv_def)

lemma export_data_fields:
  "kept_pairs (export_data ids s) = kept_pairs s"
  "completed_questions (export_data ids s) = completed_questions s"
  "unsuitable_questions (export_data ids s) = unsuitable_questions s"
  "profile_json (files (export_data ids s)) = kept_pairs s"
  "unsuitable_questions_json (files (export_data ids s)) = Some (unsuitable_questions s)"
  "index_input (export_data ids s) = index_input s"
  "data (export_data ids s) = data s"
  by (simp_all add: export_data_def split: prod.splits)

lemma submit_qa_unsuitable:
  assumes "question_suitability f = question_unsuitable_option"
  shows "kept_pairs (submit_qa f e ids cur s) = kept_pairs s"
    "completed_questions (submit_qa f e ids cur s) = completed_questions s"
    "unsuitable_questions (submit_qa f e ids cur s) =
       (unsuitable_questions s)(fst cur \<mapsto>
          (case unsuitable_questions s (fst cur) of None \<Rightarrow> [] | Some qs \<Rightarrow> qs) @ [fst (snd cur)])"
    "profile_json (files (submit_qa f e ids cur s)) = kept_pairs s"
    "unsuitable_questions_json (files (submit_qa f e ids cur s)) =
       Some (unsuitable_questions (submit_qa f e ids cur s))"
  using assms by (simp_all add: submit_qa_def Let_def export_data_fields add_notes_frame)

lemma submit_qa_accepted:
  assumes "question_suitability f = question_suitable_option"
    and "question_errors f cur = []" and "answer_errors f cur = []"
  shows "kept_pairs (submit_qa f e ids cur s) = kept_pairs s @
       [\<lparr>Context = fst cur, Question = fst (snd cur), Answer = snd (snd cur),
         Original_Question_Naturalness = question_naturalness f,
         Original_Answer_Naturalness = answer_naturalness f,
         Original_Answer_Adequacy = answer_adequacy f,
         Original_Answer_Correctness = answer_precision f,
         User_Query = user_question f, User_Answer = user_answer f\<rparr>]"
    "completed_questions (submit_qa f e ids cur s) = insert (fst (snd cur)) (completed_questions s)"
    "unsuitable_questions (submit_qa f e ids cur s) = unsuitable_questions s"
    "profile_json (files (submit_qa f e ids cur s)) = kept_pairs (submit_qa f e ids cur s)"
    "unsuitable_questions_json (files (submit_qa f e ids cur s)) = Some (unsuitable_questions s)"
  using assms
  by (simp_all add: submit_qa_def Let_def export_data_fields add_notes_frame save_qa_pair_def
      suitability.distinct)

lemma inv_submit:
  assumes inv: "profile_inv s"
    and cur: "\<not> qa_pair_annotated s cur" "\<not> qa_pair_unsuitable s cur"
  shows "profile_inv (submit_qa f e ids cur s)"
proof (cases "question_suitability f")
  case question_unsuitable_option
  note u = submit_qa_unsuitable [OF question_unsuitable_option, of e ids cur s]
  have "Question kp \<noteq> fst (snd cur)" if "kp \<in> set (kept_pairs s)" for kp
    using inv cur(1) that by (auto simp: profile_inv_def qa_pair_annotated_def)
  then show ?thesis
    using inv unfolding profile_inv_def u
    by (auto split: option.splits if_splits)
next
  case question_suitable_option
  show ?thesis
  proof (cases "question_errors f cur = [] \<and> answer_errors f cur = []")
    case True
    then have ok: "question_errors f cur = []" "answer_errors f cur = []" by simp_all
    note a = submit_qa_accepted [OF question_suitable_option ok, of e ids s]
    show ?thesis
      using inv cur unfolding profile_inv_def a
      by (auto simp: qa_pair_unsuitable_def split: option.splits)
  next
    case False
    then have r: "question_errors f cur \<noteq> [] \<or> answer_errors f cur \<noteq> []" by simp
    note c9 = submit_qa_rejected [OF question_suitable_option r, of e ids s]
    show ?thesis
      using inv unfolding profile_inv_def c9
      by (simp add: add_notes_frame)
  qed
qed

lemma cursor_loop_rests:
  assumes "index_input (cursor_loop s) < length (data s)"
  shows "\<not> skipped s (index_input (cursor_loop s))"
proof (cases "index_input s \<le> length (data s)")
  case True
  from cursor_loop_position [OF True] assms show ?thesis by simp
next
  case False
  then have "cursor_loop s = s" by (simp add: cursor_loop_end)
  with False assms show ?thesis by simp
qed

lemma skipped_cursor_loop: "skipped (cursor_loop s) i = skipped s i"
  by (subst cursor_loop_only_index) simp

lemma data_cursor_loop: "data (cursor_loop s) = data s"
  by (subst cursor_loop_only_index) simp

lemma inv_press: "profile_inv s \<Longrightarrow> profile_inv (press_submit f e ids s)"
proof -
  assume inv: "profile_inv s"
  let ?s = "cursor_loop s"
  have i: "profile_inv ?s" using inv by (rule inv_cursor)
  show ?thesis
  proof (cases "index_input ?s < length (data ?s)")
    case False
    then show ?thesis using i by (simp add: press_submit_def Let_def)
  next
    case True
    have d: "data ?s = data s"
      by (subst cursor_loop_only_index) simp
    have "\<not> skipped ?s (index_input ?s)"
      using True cursor_loop_rests [of s] by (simp add: skipped_cursor_loop d)
    then have "\<not> qa_pair_annotated ?s (data ?s ! index_input ?s)"
      "\<not> qa_pair_unsuitable ?s (data ?s ! index_input ?s)"
      by (simp_all add: skipped_def)
    with i have "profile_inv (submit_qa f e ids (data ?s ! index_input ?s) ?s)"
      by (rule inv_submit)
    with True show ?thesis by (simp add: press_submit_def Let_def)
  qed
qed

lemma reachable_inv: "reachable s \<Longrightarrow> profile_inv s"
proof (induction rule: reachable.induct)
  case (first_login username raw_data)
  show ?case by (rule inv_first)
next
  case (run s)
  then show ?case by (simp add: inv_cursor)
next
  case (press s f elapsed ids)
  then show ?case by (simp add: inv_press)
next
  case (login_again s raw_data)
  then show ?case by (simp add: inv_load)
qed

text \<open>
  C8 (amended). In every reachable session, no judgement of the kept pairs has its
  question listed in the unsuitable record under the judgement's own context: a
  (context, question) pair is never both unsuitable and judged.
\<close>

theorem C8_pair_never_both:
  assumes "reachable s" and "kp \<in> set (kept_pairs s)"
    and "unsuitable_questions s (Context kp) = Some qs"
  shows "Question kp \<notin> set qs"
  using reachable_inv [OF assms(1)] assms(2,3) unfolding profile_inv_def by blast

lemma submit_qa_queue:
  "data (submit_qa f e ids cur s) = data s \<and> index_input (submit_qa f e ids cur s) = index_input s \<and>
   user (submit_qa f e ids cur s) = user s"
  by (simp add: submit_qa_def Let_def add_notes_frame export_data_def save_qa_pair_def
      split: prod.splits)

lemma errs_accept: "question_errors form_accept item_cat = []" "answer_errors form_accept item_cat = []"
  by (simp_all add: question_errors_def answer_errors_def form_accept_def item_cat_def Let_def
      strip_samples str_in_def sublist_Cons_right)

lemma two_presses:
  assumes "\<not> (fst it0 = ''the cat'' \<and> fst (snd it0) = ''who sat'')"
  defines "s0 \<equiv> load_user_profile_and_dataset ''u'' [it0, item_cat] init_user"
  defines "s2 \<equiv> press_submit form_accept 1 zero_ids (press_submit form_unsuitable 1 zero_ids s0)"
  shows "reachable s2"
    and "map Context (kept_pairs s2) = [''the cat'']"
    and "map Question (kept_pairs s2) = [''who sat'']"
    and "unsuitable_questions s2 = [fst it0 \<mapsto> [fst (snd it0)]]"
proof -
  let ?s1 = "press_submit form_unsuitable 1 zero_ids s0"
  have f0: "index_input s0 = 0" "data s0 = [it0, item_cat]" "completed_questions s0 = {}"
    "unsuitable_questions s0 = Map.empty" "kept_pairs s0 = []"
    by (simp_all add: s0_def load_user_profile_and_dataset_def shuffle_qa_data_def init_user_def)
  have c0: "cursor_loop s0 = s0"
    by (rule cursor_loop_stay) (simp_all add: f0 qa_pair_annotated_def qa_pair_unsuitable_def)
  have s1: "?s1 = submit_qa form_unsuitable 1 zero_ids it0 s0"
    by (simp add: press_submit_def c0 Let_def f0)
  have u: "question_suitability form_unsuitable = question_unsuitable_option"
    by (simp add: form_unsuitable_def)
  have f1: "index_input ?s1 = 0" "data ?s1 = [it0, item_cat]" "completed_questions ?s1 = {}"
    "unsuitable_questions ?s1 = [fst it0 \<mapsto> [fst (snd it0)]]" "kept_pairs ?s1 = []"
    unfolding s1 by (simp_all add: submit_qa_queue submit_qa_unsuitable [OF u] f0)
  let ?t1 = "?s1\<lparr>index_input := 1\<rparr>"
  have "cursor_loop ?s1 = cursor_loop (?s1\<lparr>index_input := index_input ?s1 + 1\<rparr>)"
    by (rule cursor_loop_skip) (simp_all add: f1 qa_pair_unsuitable_def)
  also have "\<dots> = cursor_loop ?t1" by (simp add: f1)
  also have "\<dots> = ?t1"
    using assms(1)
    by (intro cursor_loop_stay)
       (auto simp add: f1 qa_pair_annotated_def qa_pair_unsuitable_def item_cat_def)
  finally have c1: "cursor_loop ?s1 = ?t1" .
  have s2: "s2 = submit_qa form_accept 1 zero_ids item_cat ?t1"
    unfolding s2_def by (subst press_submit_def) (simp add: c1 Let_def f1)
  have a: "question_suitability form_accept = question_suitable_option"
    by (simp add: form_accept_def)
  show "reachable s2"
    unfolding s2_def s0_def by (intro reachable.press reachable.first_login)
  note acc = submit_qa_accepted [OF a errs_accept, of 1 zero_ids ?t1]
  have k: "kept_pairs s2 =
       [\<lparr>Context = fst item_cat, Question = fst (snd item_cat), Answer = snd (snd item_cat),
         Original_Question_Naturalness = question_naturalness form_accept,
         Original_Answer_Naturalness = answer_naturalness form_accept,
         Original_Answer_Adequacy = answer_adequacy form_accept,
         Original_Answer_Correctness = answer_precision form_accept,
         User_Query = user_question form_accept, User_Answer = user_answer form_accept\<rparr>]"
    unfolding s2 acc(1) by (simp add: f1)
  show "map Context (kept_pairs s2) = [''the cat'']"
    unfolding k by (simp add: item_cat_def)
  show "map Question (kept_pairs s2) = [''who sat'']"
    unfolding k by (simp add: item_cat_def)
  show "unsuitable_questions s2 = [fst it0 \<mapsto> [fst (snd it0)]]"
    unfolding s2 acc(3) by (simp add: f1)
qed

text \<open>
  C8 (as stated, refuted). With the same question under two contexts, the reviewer marks
  it unsuitable under the first and accepts it under the second: the cursor does not skip
  the second item, because the unsuitable record is read under the item's own context.
  The session reached holds the question string both in the unsuitable record and as the
  question of a judgement.
\<close>

theorem C8_question_in_both_counterexample:
  "reachable (press_submit form_accept 1 zero_ids
               (press_submit form_unsuitable 1 zero_ids session_shared)) \<and>
   unsuitable_questions (press_submit form_accept 1 zero_ids
               (press_submit form_unsuitable 1 zero_ids session_shared)) ''the dog'' =
     Some [''who sat''] \<and>
   map Question (kept_pairs (press_submit form_accept 1 zero_ids
               (press_submit form_unsuitable 1 zero_ids session_shared))) = [''who sat'']"
  using two_presses [of "(''the dog'', ''who sat'', ''dog'')"]
  by (simp add: session_shared_def queue_shared_def item_cat_def)

theorem C8_pair_never_both_witness:
  "reachable (press_submit form_accept 1 zero_ids
               (press_submit form_unsuitable 1 zero_ids session_queue_cat)) \<and>
   map Context (kept_pairs (press_submit form_accept 1 zero_ids
               (press_submit form_unsuitable 1 zero_ids session_queue_cat))) = [''the cat''] \<and>
   map Question (kept_pairs (press_submit form_accept 1 zero_ids
               (press_submit form_unsuitable 1 zero_ids session_queue_cat))) = [''who sat''] \<and>
   unsuitable_questions (press_submit form_accept 1 zero_ids
               (press_submit form_unsuitable 1 zero_ids session_queue_cat)) ''the cat'' =
     Some [''who ran''] \<and>
   ''who sat'' \<notin> set [''who ran'']"
proof -
  let ?s = "press_submit form_accept 1 zero_ids
               (press_submit form_unsuitable 1 zero_ids session_queue_cat)"
  have r: "reachable ?s" and c: "map Context (kept_pairs ?s) = [''the cat'']"
    and q: "map Question (kept_pairs ?s) = [''who sat'']"
    and u: "unsuitable_questions ?s ''the cat'' = Some [''who ran'']"
    using two_presses [of "(''the cat'', ''who ran'', ''cat'')"]
    by (simp_all add: session_queue_cat_def queue_cat_def item_cat_def)
  from c q obtain kp where kp: "kept_pairs ?s = [kp]" "Context kp = ''the cat''" "Question kp = ''who sat''"
    by (cases "kept_pairs ?s") auto
  then have "kp \<in> set (kept_pairs ?s)" by simp
  from C8_pair_never_both [OF r this, of "[''who ran'']"] u kp
  have "''who sat'' \<notin> set [''who ran'']" by simp
  with r c q u show ?thesis by simp
qed

section \<open>What the marks are keyed by\<close>

lemma session_shared_fields:
  "index_input session_shared = 0" "data session_shared = queue_shared"
  "completed_questions session_shared = {}" "unsuitable_questions session_shared = Map.empty"
  "kept_pairs session_shared = []"
  by (simp_all add: session_shared_def load_user_profile_and_dataset_def shuffle_qa_data_def
      init_user_def)

lemma cursor_session_shared: "cursor_loop session_shared = session_shared"
  by (rule cursor_loop_stay)
     (simp_all add: session_shared_fields queue_shared_def qa_pair_annotated_def
        qa_pair_unsuitable_def)

text \<open>
  C7 (as stated, refuted for the unsuitable record). After the question is marked
  unsuitable under one context, the cursor rests on the item that has the same question
  under another context: the unsuitable mark is not keyed by the question text alone.
\<close>

theorem C7_unsuitable_by_question_counterexample:
  "unsuitable_questions (press_submit form_unsuitable 1 zero_ids session_shared) ''the dog'' =
     Some [''who sat''] \<and>
   index_input (cursor_loop (press_submit form_unsuitable 1 zero_ids session_shared)) = 1 \<and>
   data (cursor_loop (press_submit form_unsuitable 1 zero_ids session_shared)) ! 1 =
     (''the cat'', ''who sat'', ''cat'') \<and>
   \<not> end_of_queue (cursor_loop (press_submit form_unsuitable 1 zero_ids session_shared))"
proof -
  let ?s1 = "press_submit form_unsuitable 1 zero_ids session_shared"
  have s1: "?s1 = submit_qa form_unsuitable 1 zero_ids (''the dog'', ''who sat'', ''dog'') session_shared"
    by (simp add: press_submit_def cursor_session_shared Let_def session_shared_fields
        queue_shared_def)
  have u: "question_suitability form_unsuitable = question_unsuitable_option"
    by (simp add: form_unsuitable_def)
  have f1: "index_input ?s1 = 0" "data ?s1 = queue_shared" "completed_questions ?s1 = {}"
    "unsuitable_questions ?s1 = [''the dog'' \<mapsto> [''who sat'']]"
    unfolding s1
    by (simp_all add: submit_qa_queue submit_qa_unsuitable [OF u] session_shared_fields)
  let ?t1 = "?s1\<lparr>index_input := 1\<rparr>"
  have "cursor_loop ?s1 = cursor_loop (?s1\<lparr>index_input := index_input ?s1 + 1\<rparr>)"
    by (rule cursor_loop_skip) (simp_all add: f1 queue_shared_def qa_pair_unsuitable_def)
  also have "\<dots> = cursor_loop ?t1" by (simp add: f1)
  also have "\<dots> = ?t1"
    by (rule cursor_loop_stay)
       (simp_all add: f1 queue_shared_def qa_pair_annotated_def qa_pair_unsuitable_def)
  finally have c1: "cursor_loop ?s1 = ?t1" .
  show ?thesis
    unfolding c1 by (simp add: f1 end_of_queue_def queue_shared_def)
qed

text \<open>
  C7 (amended). Completion is keyed by the question text alone: once a judgement for the
  item \<open>(c, q, a)\<close> is accepted, every item with the question \<open>q\<close>, under any context
  \<open>c'\<close> and with any answer, counts as annotated, and the cursor never rests on an item
  whose question is \<open>q\<close>. The unsuitable record is keyed by context and question:
  marking \<open>(c, q, a)\<close> unsuitable leaves the completed questions as they were and makes
  unsuitable exactly the items with both the context \<open>c\<close> and the question \<open>q\<close>,
  beside those that were unsuitable already.
\<close>

theorem C7_completion_by_question_text:
  "(question_suitability f = question_suitable_option \<and>
    question_errors f (c, q, a) = [] \<and> answer_errors f (c, q, a) = [] \<longrightarrow>
      qa_pair_annotated (submit_qa f e ids (c, q, a) s) (c', q, a') \<and>
      (index_input (cursor_loop (submit_qa f e ids (c, q, a) s)) < length (data s) \<longrightarrow>
         fst (snd (data s ! index_input (cursor_loop (submit_qa f e ids (c, q, a) s)))) \<noteq> q)) \<and>
   (question_suitability f = question_unsuitable_option \<longrightarrow>
      completed_questions (submit_qa f e ids (c, q, a) s) = completed_questions s \<and>
      qa_pair_unsuitable (submit_qa f e ids (c, q, a) s) (c', q', a') =
        (c' = c \<and> q' = q \<or> qa_pair_unsuitable s (c', q', a')))"
proof (intro conjI impI)
  let ?s' = "submit_qa f e ids (c, q, a) s"
  assume ok: "question_suitability f = question_suitable_option \<and>
    question_errors f (c, q, a) = [] \<and> answer_errors f (c, q, a) = []"
  then have acc: "completed_questions ?s' = insert q (completed_questions s)"
    using submit_qa_accepted(2) [of f "(c, q, a)" e ids s] by simp
  then show ann: "qa_pair_annotated ?s' (c', q, a')"
    by (simp add: qa_pair_annotated_def)
  assume lt: "index_input (cursor_loop ?s') < length (data s)"
  have d: "data ?s' = data s" by (simp add: submit_qa_queue)
  from lt have "\<not> skipped ?s' (index_input (cursor_loop ?s'))"
    using cursor_loop_rests [of ?s'] by (simp add: d)
  then have "\<not> qa_pair_annotated ?s' (data s ! index_input (cursor_loop ?s'))"
    by (simp add: skipped_def d)
  then show "fst (snd (data s ! index_input (cursor_loop ?s'))) \<noteq> q"
    by (simp add: qa_pair_annotated_def acc)
next
  assume u: "question_suitability f = question_unsuitable_option"
  show "completed_questions (submit_qa f e ids (c, q, a) s) = completed_questions s"
    by (simp add: submit_qa_unsuitable [OF u])
  show "qa_pair_unsuitable (submit_qa f e ids (c, q, a) s) (c', q', a') =
        (c' = c \<and> q' = q \<or> qa_pair_unsuitable s (c', q', a'))"
    by (auto simp add: submit_qa_unsuitable [OF u] qa_pair_unsuitable_def split: option.splits)
qed

lemma errs_accept_dog:
  "question_errors form_accept_dog (''the dog'', ''who sat'', ''dog'') = []"
  "answer_errors form_accept_dog (''the dog'', ''who sat'', ''dog'') = []"
  by (simp_all add: question_errors_def answer_errors_def form_accept_dog_def Let_def
      strip_samples str_in_def sublist_Cons_right)

theorem C7_completion_by_question_text_witness:
  "qa_pair_annotated
     (submit_qa form_accept_dog 1 zero_ids (''the dog'', ''who sat'', ''dog'') session_shared)
     (''the cat'', ''who sat'', ''cat'') \<and>
   qa_pair_unsuitable
     (submit_qa form_unsuitable 1 zero_ids (''the dog'', ''who sat'', ''dog'') session_shared)
     (''the dog'', ''who sat'', ''dog'') \<and>
   \<not> qa_pair_unsuitable
     (submit_qa form_unsuitable 1 zero_ids (''the dog'', ''who sat'', ''dog'') session_shared)
     (''the cat'', ''who sat'', ''cat'')"
proof -
  have a: "question_suitability form_accept_dog = question_suitable_option"
    by (simp add: form_accept_dog_def)
  have u: "question_suitability form_unsuitable = question_unsuitable_option"
    by (simp add: form_unsuitable_def)
  have n: "\<not> qa_pair_unsuitable session_shared (''the cat'', ''who sat'', ''cat'')"
    "\<not> qa_pair_unsuitable session_shared (''the dog'', ''who sat'', ''dog'')"
    by (simp_all add: qa_pair_unsuitable_def session_shared_fields)
  from C7_completion_by_question_text
         [of form_accept_dog "''the dog''" "''who sat''" "''dog''" 1 zero_ids session_shared
             "''the cat''" "''cat''"]
       a errs_accept_dog
  have 1: "qa_pair_annotated
     (submit_qa form_accept_dog 1 zero_ids (''the dog'', ''who sat'', ''dog'') session_shared)
     (''the cat'', ''who sat'', ''cat'')"
    by simp
  from C7_completion_by_question_text
         [of form_unsuitable "''the dog''" "''who sat''" "''dog''" 1 zero_ids session_shared
             "''the dog''" "''dog''" "''who sat''"] u n
  have 2: "qa_pair_unsuitable
     (submit_qa form_unsuitable 1 zero_ids (''the dog'', ''who sat'', ''dog'') session_shared)
     (''the dog'', ''who sat'', ''dog'')"
    by simp
  from C7_completion_by_question_text
         [of form_unsuitable "''the dog''" "''who sat''" "''dog''" 1 zero_ids session_shared
             "''the cat''" "''cat''" "''who sat''"] u n
  have 3: "\<not> qa_pair_unsuitable
     (submit_qa form_unsuitable 1 zero_ids (''the dog'', ''who sat'', ''dog'') session_shared)
     (''the cat'', ''who sat'', ''cat'')"
    by simp
  from 1 2 3 show ?thesis by simp
qed

section \<open>The output of the aggregator, from the judgements\<close>

lemma add_pair_distinct:
  "distinct (map fst (fst acc)) \<Longrightarrow> distinct (map fst (fst (add_pair c qa acc)))"
  by (simp add: add_pair_def Let_def distinct_update split: option.splits)

lemma fold_add_pair_distinct:
  "distinct (map fst (fst acc)) \<Longrightarrow> distinct (map fst (fst (fold (add_pair c) ps acc)))"
  by (induction ps arbitrary: acc) (simp_all add: add_pair_distinct)

lemma set_update_subset: "set (AList.update k v al) \<subseteq> insert (k, v) (set al)"
  by (induction al) auto

lemma wf_dict_update:
  assumes "wf_dict d" and "distinct (map fst m)"
  shows "wf_dict (AList.update c m d)"
proof -
  have "distinct (map fst (snd p))" if "p \<in> set (AList.update c m d)" for p
  proof -
    from that set_update_subset [of c m d] have "p = (c, m) \<or> p \<in> set d" by auto
    with assms show ?thesis by (auto simp: wf_dict_def)
  qed
  with assms(1) show ?thesis
    by (simp add: wf_dict_def distinct_update)
qed

lemma wf_dict_lookup:
  assumes "wf_dict d"
  shows "distinct (map fst (case map_of d c of None \<Rightarrow> [] | Some m \<Rightarrow> m))"
proof (cases "map_of d c")
  case None
  then show ?thesis by simp
next
  case (Some m)
  then have "(c, m) \<in> set d" by (rule map_of_SomeD)
  with assms have "distinct (map fst (snd (c, m)))"
    unfolding wf_dict_def by blast
  with Some show ?thesis by simp
qed

lemma process_kept_pair_wf:
  assumes "wf_dict (context_to_question_answers s)"
  shows "wf_dict (context_to_question_answers (process_kept_pair kp s))"
proof -
  let ?d = "context_to_question_answers s"
  let ?m = "case map_of ?d (Context kp) of None \<Rightarrow> [] | Some m \<Rightarrow> m"
  have "distinct (map fst (fst (fold (add_pair (Context kp)) (pairs_to_add kp) (?m, logged s))))"
    by (rule fold_add_pair_distinct) (simp add: wf_dict_lookup [OF assms])
  with assms show ?thesis
    by (simp add: process_kept_pair_def Let_def wf_dict_update)
qed

lemma fold_process_wf:
  "wf_dict (context_to_question_answers s) \<Longrightarrow>
   wf_dict (context_to_question_answers (fold process_kept_pair kps s))"
  by (induction kps arbitrary: s) (simp_all add: process_kept_pair_wf)

lemma kept_pairs_loop_wf: "wf_dict (context_to_question_answers (kept_pairs_loop kps))"
  unfolding kept_pairs_loop_def
  by (rule fold_process_wf) (simp add: agg_init_def wf_dict_def)

lemma wf_dict_entries:
  assumes "wf_dict d"
  shows "(c, q, ans) \<in> set (concat (map (\<lambda>(c, m). map (\<lambda>(q, ans). (c, q, ans)) m) d)) \<longleftrightarrow>
         answers_at d c q = Some ans"
proof
  assume "answers_at d c q = Some ans"
  then show "(c, q, ans) \<in> set (concat (map (\<lambda>(c, m). map (\<lambda>(q, ans). (c, q, ans)) m) d))"
    by (rule answers_at_in_entries)
next
  assume "(c, q, ans) \<in> set (concat (map (\<lambda>(c, m). map (\<lambda>(q, ans). (c, q, ans)) m) d))"
  then obtain m where m: "(c, m) \<in> set d" "(q, ans) \<in> set m"
    by auto
  from assms m(1) have "distinct (map fst (snd (c, m)))"
    unfolding wf_dict_def by blast
  then have dm: "distinct (map fst m)" by simp
  from assms have dd: "distinct (map fst d)"
    by (simp add: wf_dict_def)
  from dd m(1) have "map_of d c = Some m" by simp
  moreover from dm m(2) have "map_of m q = Some ans" by simp
  ultimately show "answers_at d c q = Some ans"
    by (simp add: answers_at_def)
qed

lemma kept_pairs_loop_answers_at:
  "answers_at (context_to_question_answers (kept_pairs_loop kps)) c q =
     (if q \<in> fst ` set (all_pairs c kps) then Some (entries_of c q (all_pairs c kps)) else None)"
proof -
  have "answers_at (context_to_question_answers agg_init) c q = None"
    by (simp add: agg_init_def answers_at_def)
  then show ?thesis
    unfolding kept_pairs_loop_def fold_process_answers_at by simp
qed

lemma entries_of_pairs_to_add:
  "entries_of c q (if Context kp = c then pairs_to_add kp else []) = contribution c q kp"
  by (auto simp add: contribution_def pairs_to_add_def original_pair_kept_def entry_of_def
      found_at_def split: option.splits)

lemma entries_of_all_pairs: "entries_of c q (all_pairs c kps) = concat (map (contribution c q) kps)"
proof (induction kps)
  case Nil
  show ?case by simp
next
  case (Cons kp kps)
  have "entries_of c q (all_pairs c (kp # kps)) =
        entries_of c q (if Context kp = c then pairs_to_add kp else []) @
        entries_of c q (all_pairs c kps)"
    by (simp only: all_pairs_Cons entries_of_append)
  then show ?case
    by (simp only: entries_of_pairs_to_add Cons.IH list.map concat.simps)
qed

lemma question_of_pairs_to_add:
  "q \<in> fst ` set (pairs_to_add kp) \<longleftrightarrow>
     (User_Query kp = q \<or>
      Original_Question_Naturalness kp \<and> Original_Answer_Naturalness kp \<and>
      (Original_Answer_Adequacy kp \<or> Original_Answer_Correctness kp) \<and> Question kp = q)"
  by (auto simp: pairs_to_add_def original_pair_kept_def)

lemma question_occurs:
  "q \<in> fst ` set (all_pairs c kps) \<longleftrightarrow>
     (\<exists>kp \<in> set kps. Context kp = c \<and>
        (User_Query kp = q \<or>
         Original_Question_Naturalness kp \<and> Original_Answer_Naturalness kp \<and>
         (Original_Answer_Adequacy kp \<or> Original_Answer_Correctness kp) \<and> Question kp = q))"
proof -
  have "q \<in> fst ` set (all_pairs c kps) \<longleftrightarrow>
        (\<exists>kp \<in> set kps. Context kp = c \<and> q \<in> fst ` set (pairs_to_add kp))"
    unfolding set_all_pairs by blast
  then show ?thesis
    unfolding question_of_pairs_to_add .
qed

lemma fold_process_unnatural:
  "unnatural (fold process_kept_pair kps s) = unnatural s @ concat (map unnatural_of kps)"
  by (induction kps arbitrary: s) (simp_all add: process_kept_pair_unnatural)

lemma fold_process_incorrect:
  "incorrect (fold process_kept_pair kps s) = incorrect s @ concat (map incorrect_of kps)"
  by (induction kps arbitrary: s) (simp_all add: process_kept_pair_incorrect)



text \<open>
  C2 (as stated, refuted). The reviewer marks the original question natural and the
  original answer natural and adequate, and corrects the answer; the validator accepts.
  The test of the claim holds, but the original answer does not occur in the context: its
  offset lookup raises, the pair is logged and dropped, and the output has the reviewer's
  entry alone.
\<close>

lemma errs_dog: "question_errors form_dog item_dog = []" "answer_errors form_dog item_dog = []"
  by (simp_all add: question_errors_def answer_errors_def form_dog_def item_dog_def Let_def
      strip_samples str_in_def sublist_Cons_right)

lemma session_dog_fields:
  "index_input session_dog = 0" "data session_dog = [item_dog]"
  "completed_questions session_dog = {}" "unsuitable_questions session_dog = Map.empty"
  "kept_pairs session_dog = []"
  by (simp_all add: session_dog_def load_user_profile_and_dataset_def shuffle_qa_data_def
      init_user_def)

lemma cursor_session_dog: "cursor_loop session_dog = session_dog"
  by (rule cursor_loop_stay)
     (simp_all add: session_dog_fields qa_pair_annotated_def qa_pair_unsuitable_def)


end
